theory Spec2Isabelle
  imports Complex_Main
begin

section \<open>Six-component MUSIC: the analysis drivers and the search they call\<close>

text \<open>
  The repository holds two analysis drivers, \<^verbatim>\<open>01isolated_Pwave\<close> and
  \<^verbatim>\<open>02interfering_Pwaves\<close>. Each one synthesises a six-channel record,
  calls the grid search \<^verbatim>\<open>music6C\<close> and post-processes the likelihood
  volume it returns. The modules \<^verbatim>\<open>ricker\<close>, \<^verbatim>\<open>awgn\<close>,
  \<^verbatim>\<open>polvect6C\<close> and \<^verbatim>\<open>music6C\<close> are imported by the drivers
  and are not among the sources; what they compute enters below as a parameter, or as a
  definition marked as modelled from the specification.
\<close>

subsection \<open>Floating-point values and arrays\<close>

text \<open>
  A float64 is either a finite number, one of the two infinities, or NaN. Finite values
  are idealised as reals: rounding is not modelled, the special values are.
\<close>

datatype fl = Fin real | PInf | NInf | NaN

text \<open>The largest finite float64, \<^verbatim>\<open>np.finfo(np.float64).max\<close>.\<close>

definition float_max :: real where
  "float_max = (2 - 1 / 2 ^ 52) * 2 ^ 1023"

fun isfinite :: "fl \<Rightarrow> bool" where
  "isfinite (Fin x) = True"
| "isfinite PInf = False"
| "isfinite NInf = False"
| "isfinite NaN = False"

text \<open>
  An \<^verbatim>\<open>ndarray\<close> in C order: its shape and its elements in row-major order.
\<close>

record 'a ndarray =
  shape :: "nat list"
  elems :: "'a list"

definition nd_map :: "('a \<Rightarrow> 'b) \<Rightarrow> 'a ndarray \<Rightarrow> 'b ndarray" where
  "nd_map f a = \<lparr>shape = shape a, elems = map f (elems a)\<rparr>"

subsection \<open>The drivers' cleanup of the likelihood volume\<close>

text \<open>
  \<^verbatim>\<open>
  L_ = np.nan_to_num(L)
  L_[L_ == 0.] = 1.
  \<close>
  \<^verbatim>\<open>np.nan_to_num\<close> with its default arguments replaces NaN by zero, positive
  infinity by the largest finite float and negative infinity by the most negative one;
  finite entries are kept.
\<close>

fun nan_to_num1 :: "fl \<Rightarrow> fl" where
  "nan_to_num1 NaN = Fin 0"
| "nan_to_num1 PInf = Fin float_max"
| "nan_to_num1 NInf = Fin (- float_max)"
| "nan_to_num1 (Fin x) = Fin x"

definition nan_to_num :: "fl ndarray \<Rightarrow> fl ndarray" where
  "nan_to_num L = nd_map nan_to_num1 L"

text \<open>\<^verbatim>\<open>x == 0.\<close> on floats: both zeros compare equal, NaN compares unequal.\<close>

fun fl_is_zero :: "fl \<Rightarrow> bool" where
  "fl_is_zero (Fin x) = (x = 0)"
| "fl_is_zero PInf = False"
| "fl_is_zero NInf = False"
| "fl_is_zero NaN = False"

definition zero_to_one1 :: "fl \<Rightarrow> fl" where
  "zero_to_one1 x = (if fl_is_zero x then Fin 1 else x)"

definition cleanup :: "fl ndarray \<Rightarrow> fl ndarray" where
  "cleanup L = nd_map zero_to_one1 (nan_to_num L)"

subsection \<open>The drivers' normalisation of the polarization vector\<close>

text \<open>
  \<^verbatim>\<open>
  v = polvect6C(param,v_scal,'P')
  v = v / np.sqrt(sum(v**2))
  \<close>
  The raw vector comes from \<^verbatim>\<open>polvect6C\<close>, which is not among the sources: it
  is a parameter here. The arithmetic is over the reals. With a zero norm numpy divides
  by zero and yields NaN entries, which the real-valued model does not represent, so the
  properties of \<open>unit_vector\<close> are stated for a non-zero norm.
\<close>

definition sum_squares :: "real list \<Rightarrow> real" where
  "sum_squares v = sum_list (map (\<lambda>x. x\<^sup>2) v)"

definition euclid_norm :: "real list \<Rightarrow> real" where
  "euclid_norm v = sqrt (sum_squares v)"

definition unit_vector :: "real list \<Rightarrow> real list" where
  "unit_vector v = map (\<lambda>x. x / sqrt (sum_squares v)) v"

subsection \<open>The drivers' synthesis of the six-channel record\<close>

text \<open>Python and numpy exceptions the drivers can meet.\<close>

datatype py_error = ValueError | IndexError

definition bind_err :: "py_error + 'a \<Rightarrow> ('a \<Rightarrow> py_error + 'b) \<Rightarrow> py_error + 'b" where
  "bind_err r f = (case r of Inl e \<Rightarrow> Inl e | Inr x \<Rightarrow> f x)"

text \<open>
  A two-dimensional array is the list of its rows; \<open>data[:,i]\<close> is a column.
\<close>

type_synonym matrix = "real list list"

definition zeros2 :: "nat \<Rightarrow> nat \<Rightarrow> matrix" where
  "zeros2 n c = replicate n (replicate c 0)"

definition col :: "matrix \<Rightarrow> nat \<Rightarrow> real list" where
  "col data i = map (\<lambda>r. r ! i) data"

definition set_col :: "matrix \<Rightarrow> nat \<Rightarrow> real list \<Rightarrow> matrix" where
  "set_col data i c = map (\<lambda>(r, x). r[i := x]) (zip data c)"

text \<open>
  \<^verbatim>\<open>t.tolist().index(t_1)\<close>: the first position of the value, \<open>ValueError\<close>
  when the list does not hold it.
\<close>

fun list_index :: "real list \<Rightarrow> real \<Rightarrow> py_error + nat" where
  "list_index [] x = Inl ValueError"
| "list_index (y # ys) x =
     (if y = x then Inr 0 else bind_err (list_index ys x) (\<lambda>n. Inr (Suc n)))"

text \<open>
  \<^verbatim>\<open>data[indx,:] = v\<close>: the row must exist, and \<open>v\<close> must have the row's
  length or length one (numpy broadcasts a single value over the row).
\<close>

definition set_row :: "matrix \<Rightarrow> nat \<Rightarrow> real list \<Rightarrow> py_error + matrix" where
  "set_row data indx v =
     (if length data \<le> indx then Inl IndexError
      else if length v = length (data ! indx) then Inr (data[indx := v])
      else if length v = 1 then Inr (data[indx := replicate (length (data ! indx)) (hd v)])
      else Inl ValueError)"

text \<open>
  \<^verbatim>\<open>np.convolve(a, v, 'same')\<close>. The full discrete convolution has
  \<open>length a + length v - 1\<close> entries; mode \<^verbatim>\<open>'same'\<close> returns its central
  part, as long as the longer argument, starting \<open>(n - 1) div 2\<close> entries in, where
  \<open>n\<close> is the length of the shorter argument. An empty argument is refused.
\<close>

definition conv_full :: "real list \<Rightarrow> real list \<Rightarrow> real list" where
  "conv_full a v =
     map (\<lambda>n. \<Sum>m\<leftarrow>[0..<length a].
                 if m \<le> n \<and> n - m < length v then a ! m * v ! (n - m) else 0)
       [0..<length a + length v - 1]"

definition np_convolve_same :: "real list \<Rightarrow> real list \<Rightarrow> py_error + real list" where
  "np_convolve_same a v =
     (if a = [] \<or> v = [] then Inl ValueError
      else Inr (take (max (length a) (length v))
                  (drop ((min (length a) (length v) - 1) div 2) (conv_full a v))))"

text \<open>
  \<^verbatim>\<open>
  for i in range(0, data[0,:].size - 1):
      data[:,i] = np.convolve(data[:,i], wav, 'same')
  \<close>
  The assignment to the column needs a result as long as the column.
\<close>

fun conv_channels :: "nat list \<Rightarrow> real list \<Rightarrow> matrix \<Rightarrow> py_error + matrix" where
  "conv_channels [] wav data = Inr data"
| "conv_channels (i # is) wav data =
     (case np_convolve_same (col data i) wav of
        Inl e \<Rightarrow> Inl e
      | Inr c \<Rightarrow>
          if length c \<noteq> length data then Inl ValueError
          else conv_channels is wav (set_col data i c))"

definition convolve_loop :: "real list \<Rightarrow> matrix \<Rightarrow> py_error + matrix" where
  "convolve_loop wav data =
     (case data of
        [] \<Rightarrow> Inl IndexError
      | r0 # _ \<Rightarrow> conv_channels [0..<length r0 - 1] wav data)"

text \<open>
  The isolated-P driver up to the noise injection. \<open>raw\<close> is what
  \<^verbatim>\<open>polvect6C(param,v_scal,'P')\<close> returned, \<open>t\<close> the time axis, \<open>t_1\<close> the
  arrival time, \<open>wav\<close> the wavelet.
  \<^verbatim>\<open>
  v = v / np.sqrt(sum(v**2))
  data = (np.zeros((len(t),6)))
  indx = t.tolist().index(t_1)
  data[indx,:] = v
  \<close>
\<close>

definition inject_01 :: "real list \<Rightarrow> real \<Rightarrow> real list \<Rightarrow> py_error + matrix" where
  "inject_01 t t_1 raw =
     bind_err (list_index t t_1) (\<lambda>indx.
       set_row (zeros2 (length t) 6) indx (unit_vector raw))"

definition synth_01 :: "real list \<Rightarrow> real \<Rightarrow> real list \<Rightarrow> real list \<Rightarrow> py_error + matrix" where
  "synth_01 t t_1 raw wav = bind_err (inject_01 t t_1 raw) (convolve_loop wav)"

text \<open>
  The interfering-P driver up to the noise injection, with the two raw vectors
  \<open>raw\<close> and \<open>raw2\<close> and the two arrival times.
  \<^verbatim>\<open>
  v  = v  / np.sqrt(sum(v **2))
  v2 = v2 / np.sqrt(sum(v2**2))
  data  = (np.zeros((len(t),6)))
  indx  = t.tolist().index(t_1)
  indx2 = t.tolist().index(t_2)
  data[indx ,:] = v
  data[indx2,:] = v2
  \<close>
\<close>

definition inject_02 ::
  "real list \<Rightarrow> real \<Rightarrow> real \<Rightarrow> real list \<Rightarrow> real list \<Rightarrow> py_error + matrix" where
  "inject_02 t t_1 t_2 raw raw2 =
     bind_err (list_index t t_1) (\<lambda>indx.
     bind_err (list_index t t_2) (\<lambda>indx2.
     bind_err (set_row (zeros2 (length t) 6) indx (unit_vector raw)) (\<lambda>data.
       set_row data indx2 (unit_vector raw2))))"

definition synth_02 ::
  "real list \<Rightarrow> real \<Rightarrow> real \<Rightarrow> real list \<Rightarrow> real list \<Rightarrow> real list \<Rightarrow> py_error + matrix" where
  "synth_02 t t_1 t_2 raw raw2 wav =
     bind_err (inject_02 t t_1 t_2 raw raw2) (convolve_loop wav)"

subsection \<open>Indexing a C-ordered array\<close>

text \<open>
  The flat position of a multi-index in an array of the given shape, and its inverse
  \<^verbatim>\<open>np.unravel_index\<close>, which refuses a flat index outside the array.
\<close>

fun ravel_index :: "nat list \<Rightarrow> nat list \<Rightarrow> nat" where
  "ravel_index (d # ds) (i # is) = i * prod_list ds + ravel_index ds is"
| "ravel_index [] is = 0"
| "ravel_index ds [] = 0"

fun unravel_index :: "nat \<Rightarrow> nat list \<Rightarrow> nat list" where
  "unravel_index m [] = []"
| "unravel_index m (d # ds) = (m div prod_list ds) # unravel_index (m mod prod_list ds) ds"

definition np_unravel_index :: "nat \<Rightarrow> nat list \<Rightarrow> py_error + nat list" where
  "np_unravel_index m shp =
     (if prod_list shp \<le> m then Inl ValueError else Inr (unravel_index m shp))"

definition nd_get :: "'a ndarray \<Rightarrow> nat list \<Rightarrow> 'a" where
  "nd_get a idx = elems a ! ravel_index (shape a) idx"

definition nd_set :: "'a ndarray \<Rightarrow> nat list \<Rightarrow> 'a \<Rightarrow> 'a ndarray" where
  "nd_set a idx x = a\<lparr>elems := (elems a)[ravel_index (shape a) idx := x]\<rparr>"

definition nd_zeros :: "nat list \<Rightarrow> fl ndarray" where
  "nd_zeros shp = \<lparr>shape = shp, elems = replicate (prod_list shp) (Fin 0)\<rparr>"

subsection \<open>The search engine\<close>

text \<open>
  Modelled from the spec: the engine \<^verbatim>\<open>music6C\<close> (coherency estimation, the
  noise-subspace projector and the grid search) is imported by the drivers and is not
  among the sources. The definitions of this subsection follow sections 4.1, 4.4 and 7
  of the specification. The eigendecomposition that builds the projector (section 4.2)
  and the polarization model (section 4.3) are parameters.
\<close>

datatype search_error = InvalidWindow | DegenerateCoherency | DegenerateModel

text \<open>
  Modelled from the spec: the window of section 4.1, \<open>windowLength\<close> samples (rounded to
  an integer count) centred at, or starting at, \<open>centerIndex\<close>; the convention is fixed
  once and is a parameter.
\<close>

datatype window_convention = Centered | Starting

text \<open>
  Modelled from the spec: the integer sample count of the window, \<open>windowLength\<close>
  rounded (section 4.1).
\<close>

definition sample_count :: "real \<Rightarrow> nat" where
  "sample_count windowLength = nat (round windowLength)"

text \<open>
  Modelled from the spec: the first sample position of the window under either
  convention (section 4.1).
\<close>

definition window_start :: "window_convention \<Rightarrow> int \<Rightarrow> nat \<Rightarrow> int" where
  "window_start conv centerIndex n =
     (case conv of Starting \<Rightarrow> centerIndex | Centered \<Rightarrow> centerIndex - int (n div 2))"

text \<open>
  Modelled from the spec: the matrix \<open>D\<^sup>t D\<close> of the window's data matrix \<open>D\<close>
  (one row per sample, six channels).
\<close>

definition gram :: "matrix \<Rightarrow> matrix" where
  "gram D = map (\<lambda>i. map (\<lambda>j. \<Sum>r\<leftarrow>D. r ! i * r ! j) [0..<6]) [0..<6]"

text \<open>
  Modelled from the spec: \<open>estimate\<close> of section 4.1. It fails with \<open>InvalidWindow\<close>
  when the window does not lie within the signal, and otherwise returns the normalised
  \<open>D\<^sup>t D\<close> of the window. The specification leaves the normalisation open (window
  length and/or matrix norm): it is the parameter \<open>normalise\<close>.
\<close>

definition estimate ::
  "(matrix \<Rightarrow> nat \<Rightarrow> matrix) \<Rightarrow> window_convention \<Rightarrow> matrix \<Rightarrow> int \<Rightarrow> real
     \<Rightarrow> search_error + matrix" where
  "estimate normalise conv data centerIndex windowLength =
     (let n = sample_count windowLength;
          s = window_start conv centerIndex n
      in if s < 0 \<or> int (length data) < s + int n then Inl InvalidWindow
         else Inr (normalise (gram (take n (drop (nat s) data))) n))"

text \<open>
  Modelled from the spec: the quadratic form \<open>v\<^sup>t Q v\<close> of section 4.4.
\<close>

definition quad_form :: "matrix \<Rightarrow> real list \<Rightarrow> real" where
  "quad_form Q v = (\<Sum>i\<leftarrow>[0..<length v]. \<Sum>j\<leftarrow>[0..<length v]. v ! i * Q ! i ! j * v ! j)"

text \<open>
  Modelled from the spec: the likelihood of one grid node (sections 4.4 and 7). \<open>raw\<close>
  is the theoretical polarization vector of the node before normalisation. A zero-norm
  vector (\<open>DegenerateModel\<close>) gives the sentinel likelihood zero; otherwise the value is
  \<open>1 / (v\<^sup>t Q v + modelEpsilon)\<close> for the unit vector \<open>v\<close>, and a zero denominator
  gives infinity.
\<close>

definition node_likelihood :: "matrix \<Rightarrow> real \<Rightarrow> real list \<Rightarrow> fl" where
  "node_likelihood Q modelEpsilon raw =
     (if sum_squares raw = 0 then Fin 0
      else let den = quad_form Q (unit_vector raw) + modelEpsilon
           in if den = 0 then PInf else Fin (1 / den))"

text \<open>
  The parameter grid the drivers build, \<^verbatim>\<open>test_param\<close> with its four
  discretised ranges.
\<close>

record test_param =
  tp_theta :: "real list"
  tp_phi :: "real list"
  tp_vp :: "real list"
  tp_vs :: "real list"

text \<open>
  Modelled from the spec: the shape of the likelihood volume, one axis per range in the
  order \<open>theta\<close>, \<open>phi\<close>, \<open>vp\<close>, \<open>vs\<close> (section 3).
\<close>

definition grid_shape :: "test_param \<Rightarrow> nat list" where
  "grid_shape tp = [length (tp_theta tp), length (tp_phi tp), length (tp_vp tp), length (tp_vs tp)]"

text \<open>
  Modelled from the spec: the grid loop of section 4.4, outer \<open>theta\<close>, then \<open>phi\<close>,
  then \<open>vp\<close>, then \<open>vs\<close>, writing each scalar into the output tensor at its grid
  indices. \<open>lik\<close> is the likelihood of a parameter combination.
\<close>

definition grid_search :: "(real \<Rightarrow> real \<Rightarrow> real \<Rightarrow> real \<Rightarrow> fl) \<Rightarrow> test_param \<Rightarrow> fl ndarray" where
  "grid_search lik tp =
     fold (\<lambda>i. fold (\<lambda>j. fold (\<lambda>k. fold (\<lambda>l L.
         nd_set L [i, j, k, l] (lik (tp_theta tp ! i) (tp_phi tp ! j) (tp_vp tp ! k) (tp_vs tp ! l)))
       [0..<length (tp_vs tp)]) [0..<length (tp_vp tp)]) [0..<length (tp_phi tp)])
       [0..<length (tp_theta tp)]
       (nd_zeros (grid_shape tp))"

text \<open>
  Modelled from the spec: \<open>search\<close> of section 4.4. The coherency matrix and the
  projector are computed once; a failure of either aborts the search, a degenerate grid
  node does not. \<open>project\<close> stands for section 4.2 and \<open>model\<close> for section 4.3 (the raw
  vector of a wave type, a parameter combination and the scaling velocity).
\<close>

definition search ::
  "(matrix \<Rightarrow> nat \<Rightarrow> matrix) \<Rightarrow> window_convention
     \<Rightarrow> (matrix \<Rightarrow> 's \<Rightarrow> real \<Rightarrow> search_error + matrix)
     \<Rightarrow> ('w \<Rightarrow> real \<Rightarrow> real \<Rightarrow> real \<Rightarrow> real \<Rightarrow> real \<Rightarrow> real list)
     \<Rightarrow> matrix \<Rightarrow> test_param \<Rightarrow> 'w \<Rightarrow> real \<Rightarrow> int \<Rightarrow> real \<Rightarrow> 's \<Rightarrow> real \<Rightarrow> real
     \<Rightarrow> search_error + fl ndarray" where
  "search normalise conv project model
       data testParam waveType scalingVelocity centerIndex windowLength subspaceSelector
       coherencyEpsilon modelEpsilon =
     (case estimate normalise conv data centerIndex windowLength of
        Inl e \<Rightarrow> Inl e
      | Inr C \<Rightarrow>
          (case project C subspaceSelector coherencyEpsilon of
             Inl e \<Rightarrow> Inl e
           | Inr Q \<Rightarrow>
               Inr (grid_search
                     (\<lambda>theta phi vp vs.
                        node_likelihood Q modelEpsilon
                          (model waveType theta phi vp vs scalingVelocity))
                     testParam)))"

text \<open>
  Modelled from the spec: the likelihood the grid loop stores for a multi-index
  \<open>[i, j, k, l]\<close>, that of \<open>(theta[i], phi[j], vp[k], vs[l])\<close>.
\<close>

definition node_at :: "(real \<Rightarrow> real \<Rightarrow> real \<Rightarrow> real \<Rightarrow> fl) \<Rightarrow> test_param \<Rightarrow> nat list \<Rightarrow> fl" where
  "node_at lik tp idx =
     lik (tp_theta tp ! (idx ! 0)) (tp_phi tp ! (idx ! 1)) (tp_vp tp ! (idx ! 2))
       (tp_vs tp ! (idx ! 3))"

subsection \<open>The drivers' post-processing of the likelihood volume\<close>

text \<open>
  \<^verbatim>\<open>abs\<close> and \<^verbatim>\<open><=\<close> on floats; a comparison with NaN is false.
\<close>

fun fl_abs :: "fl \<Rightarrow> fl" where
  "fl_abs (Fin x) = Fin \<bar>x\<bar>"
| "fl_abs PInf = PInf"
| "fl_abs NInf = PInf"
| "fl_abs NaN = NaN"

fun fl_le :: "fl \<Rightarrow> fl \<Rightarrow> bool" where
  "fl_le NaN y = False"
| "fl_le x NaN = False"
| "fl_le NInf y = True"
| "fl_le x PInf = True"
| "fl_le (Fin x) (Fin y) = (x \<le> y)"
| "fl_le PInf y = False"
| "fl_le x NInf = False"

text \<open>
  \<^verbatim>\<open>np.argmax\<close> and \<^verbatim>\<open>np.max\<close> over the flattened array: the scan keeps
  the first largest entry and stops at the first NaN, which counts as the maximum. An
  empty array is refused. \<open>argmax_from mp mi i xs\<close> scans \<open>xs\<close>, whose first entry has
  position \<open>i\<close>, with the running maximum \<open>mp\<close> found at position \<open>mi\<close>.
\<close>

fun argmax_from :: "fl \<Rightarrow> nat \<Rightarrow> nat \<Rightarrow> fl list \<Rightarrow> nat \<times> fl" where
  "argmax_from mp mi i [] = (mi, mp)"
| "argmax_from mp mi i (x # xs) =
     (if mp = NaN then (mi, mp)
      else if \<not> fl_le x mp then argmax_from x i (Suc i) xs
      else argmax_from mp mi (Suc i) xs)"

definition np_argmax :: "fl list \<Rightarrow> py_error + nat" where
  "np_argmax xs = (case xs of [] \<Rightarrow> Inl ValueError | x # ys \<Rightarrow> Inr (fst (argmax_from x 0 1 ys)))"

definition np_max :: "fl list \<Rightarrow> py_error + fl" where
  "np_max xs = (case xs of [] \<Rightarrow> Inl ValueError | x # ys \<Rightarrow> Inr (snd (argmax_from x 0 1 ys)))"

text \<open>
  The two planes the drivers cut out of the four-dimensional volume,
  \<^verbatim>\<open>L_[:,:,k,l]\<close> and \<^verbatim>\<open>L_[i,j,:,:]\<close>; an index outside its axis is an
  \<open>IndexError\<close>. The drivers reach these only with a four-dimensional array.
\<close>

definition slice_last2 :: "'a ndarray \<Rightarrow> nat \<Rightarrow> nat \<Rightarrow> py_error + 'a ndarray" where
  "slice_last2 L k l =
     (case shape L of
        [a, b, c, d] \<Rightarrow>
          if c \<le> k \<or> d \<le> l then Inl IndexError
          else Inr \<lparr>shape = [a, b],
                    elems = map (\<lambda>p. nd_get L [p div b, p mod b, k, l]) [0..<a * b]\<rparr>
      | _ \<Rightarrow> Inl IndexError)"

definition slice_first2 :: "'a ndarray \<Rightarrow> nat \<Rightarrow> nat \<Rightarrow> py_error + 'a ndarray" where
  "slice_first2 L i j =
     (case shape L of
        [a, b, c, d] \<Rightarrow>
          if a \<le> i \<or> b \<le> j then Inl IndexError
          else Inr \<lparr>shape = [c, d],
                    elems = map (\<lambda>p. nd_get L [i, j, p div d, p mod d]) [0..<c * d]\<rparr>
      | _ \<Rightarrow> Inl IndexError)"

text \<open>\<^verbatim>\<open>np.squeeze\<close> drops the axes of length one.\<close>

definition nd_squeeze :: "'a ndarray \<Rightarrow> 'a ndarray" where
  "nd_squeeze a = \<lparr>shape = filter (\<lambda>n. n \<noteq> 1) (shape a), elems = elems a\<rparr>"

text \<open>
  The post-processing cell of both drivers, applied to the array \<open>L\<close>:
  \<^verbatim>\<open>
  L_ = np.nan_to_num(L)
  L_[L_ == 0.] = 1.
  maxval  =    np.max(abs(L_[:]))
  maxidx  = np.argmax(abs(L_[:]))
  i,j,k,l = np.unravel_index(maxidx, L_[:].shape)
  phitheta  = np.squeeze((abs(L_[:,:,k,l])))
  vpvs      = np.squeeze((abs(L_[i,j,:,:])))
  \<close>
  Unpacking into \<open>i,j,k,l\<close> needs exactly four indices, that is a four-dimensional
  array; any other number is a \<open>ValueError\<close>. The source's \<^verbatim>\<open>L_\<close> is \<open>L'\<close> here.
\<close>

record analysis =
  an_L' :: "fl ndarray"
  an_maxval :: fl
  an_maxidx :: nat
  an_ijkl :: "nat \<times> nat \<times> nat \<times> nat"
  an_phitheta :: "fl ndarray"
  an_vpvs :: "fl ndarray"

definition postprocess :: "fl ndarray \<Rightarrow> py_error + analysis" where
  "postprocess L =
     (let L' = cleanup L; A = map fl_abs (elems L') in
      bind_err (np_max A) (\<lambda>maxval.
      bind_err (np_argmax A) (\<lambda>maxidx.
      bind_err (np_unravel_index maxidx (shape L')) (\<lambda>idx.
        case idx of
          [i, j, k, l] \<Rightarrow>
            bind_err (slice_last2 L' k l) (\<lambda>s1.
            bind_err (slice_first2 L' i j) (\<lambda>s2.
              Inr \<lparr>an_L' = L', an_maxval = maxval, an_maxidx = maxidx,
                   an_ijkl = (i, j, k, l),
                   an_phitheta = nd_squeeze (nd_map fl_abs s1),
                   an_vpvs = nd_squeeze (nd_map fl_abs s2)\<rparr>))
        | _ \<Rightarrow> Inl ValueError))))"

text \<open>
  What \<^verbatim>\<open>music6C(...)\<close> may hand back to the driver, which binds the whole of it
  to \<open>L\<close>: an array, a number, or a tuple of such values. \<^verbatim>\<open>np.nan_to_num\<close>
  first converts its argument to an array. A number becomes a zero-dimensional array,
  a tuple of equally shaped parts gains a leading axis, and a tuple whose parts differ in
  shape is refused with \<open>ValueError\<close> (numpy releases that still build an array of
  objects from such a tuple raise \<open>ValueError\<close> further down the same cell, at the
  latest when the single index of that one-dimensional array is unpacked into
  \<open>i,j,k,l\<close>).
\<close>

datatype pyvalue = PyArray "fl ndarray" | PyNum fl | PyTuple "pyvalue list"

fun same_shapes :: "nat list \<Rightarrow> fl ndarray list \<Rightarrow> bool" where
  "same_shapes shp [] = True"
| "same_shapes shp (a # as) = (shape a = shp \<and> same_shapes shp as)"

definition stack :: "fl ndarray list \<Rightarrow> py_error + fl ndarray" where
  "stack as =
     (case as of
        [] \<Rightarrow> Inr \<lparr>shape = [0], elems = []\<rparr>
      | a # _ \<Rightarrow>
          if same_shapes (shape a) as
          then Inr \<lparr>shape = length as # shape a, elems = concat (map elems as)\<rparr>
          else Inl ValueError)"

fun collect :: "(py_error + 'a) list \<Rightarrow> py_error + 'a list" where
  "collect [] = Inr []"
| "collect (r # rs) =
     bind_err r (\<lambda>x. bind_err (collect rs) (\<lambda>xs. Inr (x # xs)))"

fun np_asarray :: "pyvalue \<Rightarrow> py_error + fl ndarray" where
  "np_asarray (PyArray a) = Inr a"
| "np_asarray (PyNum x) = Inr \<lparr>shape = [], elems = [x]\<rparr>"
| "np_asarray (PyTuple vs) = bind_err (collect (map np_asarray vs)) stack"

definition driver_post :: "pyvalue \<Rightarrow> py_error + analysis" where
  "driver_post ret = bind_err (np_asarray ret) postprocess"

subsection \<open>The drivers' settings and their calls of the imported modules\<close>

text \<open>
  The wave parameters (the drivers' \<^verbatim>\<open>param\<close> objects) and the arguments of the
  calls \<^verbatim>\<open>polvect6C(param,v_scal,'P')\<close> and
  \<^verbatim>\<open>music6C(data,test_param,'P',v_scal,indx,W,'auto',eps,eps2)\<close>. Of the
  arguments of \<^verbatim>\<open>music6C\<close> the record keeps the settings; the data, the grid and
  the arrival index are computed values and are modelled where they are used.
\<close>

record wave_param =
  wp_theta :: real
  wp_phi :: real
  wp_vp :: real
  wp_vs :: real

record polvect6C_args =
  pv_param :: wave_param
  pv_v_scal :: real
  pv_wtype :: string

record music6C_args =
  mu_wtype :: string
  mu_v_scal :: real
  mu_W :: real
  mu_l_auto :: string
  mu_eps :: real
  mu_eps2 :: real

text \<open>
  The isolated-P driver: its settings in the order of the source, then the calls it
  makes of \<^verbatim>\<open>polvect6C\<close> (in program order) and its call of \<^verbatim>\<open>music6C\<close>.
  \<^verbatim>\<open>
  wl = 0.4
  theta  = 20.
  phi    = 20.
  vp     = 300.
  vs     = 170.
  v_scal = 2 * vs
  dt   = 0.25e-3
  v = polvect6C(param,v_scal,'P')
  W = (wl / dt)
  L = music6C(data,test_param,'P',v_scal,indx,W,'auto',0,0.01)
  \<close>
\<close>

definition driver_01_calls :: "polvect6C_args list \<times> music6C_args" where
  "driver_01_calls =
     (let wl = 0.4;
          theta = 20;
          phi = 20;
          vp = 300;
          vs = 170;
          v_scal = 2 * vs;
          dt = 0.00025;
          param = \<lparr>wp_theta = theta, wp_phi = phi, wp_vp = vp, wp_vs = vs\<rparr>;
          W = wl / dt
      in ([\<lparr>pv_param = param, pv_v_scal = v_scal, pv_wtype = ''P''\<rparr>],
          \<lparr>mu_wtype = ''P'', mu_v_scal = v_scal, mu_W = W, mu_l_auto = ''auto'',
           mu_eps = 0, mu_eps2 = 0.01\<rparr>))"

text \<open>
  The interfering-P driver.
  \<^verbatim>\<open>
  wl = 0.6
  theta  = 20.
  phi    = 20.
  vp     = 300.
  vs     = 170.
  v_scal = 1.2 * vs
  theta2 = 14.
  phi2   = 0.
  dt   = 0.25e-3
  v  = polvect6C(param, v_scal,'P')
  v2 = polvect6C(param2,v_scal,'P')
  W = (wl / dt)
  L = music6C(data,test_param,'P',v_scal,indx,W,'auto',1e-9,0.01)
  \<close>
\<close>

definition driver_02_calls :: "polvect6C_args list \<times> music6C_args" where
  "driver_02_calls =
     (let wl = 0.6;
          theta = 20;
          phi = 20;
          vp = 300;
          vs = 170;
          v_scal = 1.2 * vs;
          theta2 = 14;
          phi2 = 0;
          dt = 0.00025;
          param = \<lparr>wp_theta = theta, wp_phi = phi, wp_vp = vp, wp_vs = vs\<rparr>;
          param2 = \<lparr>wp_theta = theta2, wp_phi = phi2, wp_vp = vp, wp_vs = vs\<rparr>;
          W = wl / dt
      in ([\<lparr>pv_param = param, pv_v_scal = v_scal, pv_wtype = ''P''\<rparr>,
           \<lparr>pv_param = param2, pv_v_scal = v_scal, pv_wtype = ''P''\<rparr>],
          \<lparr>mu_wtype = ''P'', mu_v_scal = v_scal, mu_W = W, mu_l_auto = ''auto'',
           mu_eps = 1 / 10 ^ 9, mu_eps2 = 0.01\<rparr>))"

section \<open>Properties\<close>

subsection \<open>Cleanup\<close>

lemma float_max_gt_one: "1 < float_max"
proof -
  have "(1::real) \<le> 2 ^ 1023" by (rule one_le_power) simp
  moreover have "(1::real) / 2 ^ 52 \<le> 1 / 2" by (simp add: field_simps)
  then have "(3::real) / 2 \<le> 2 - 1 / 2 ^ 52" by simp
  ultimately have "(3::real) / 2 * 1 \<le> (2 - 1 / 2 ^ 52) * 2 ^ 1023"
    by (intro mult_mono) simp_all
  then show ?thesis by (simp add: float_max_def)
qed

lemma cleanup1_cases:
  "zero_to_one1 (nan_to_num1 x) =
     (case x of NaN \<Rightarrow> Fin 1 | PInf \<Rightarrow> Fin float_max | NInf \<Rightarrow> Fin (- float_max)
      | Fin r \<Rightarrow> if r = 0 then Fin 1 else Fin r)"
  using float_max_gt_one by (cases x) (auto simp: zero_to_one1_def)

lemma cleanup_shape: "shape (cleanup L) = shape L"
  by (simp add: cleanup_def nan_to_num_def nd_map_def)

lemma cleanup_nth:
  "m < length (elems L) \<Longrightarrow> elems (cleanup L) ! m = zero_to_one1 (nan_to_num1 (elems L ! m))"
  by (simp add: cleanup_def nan_to_num_def nd_map_def)

text \<open>
  Claim C3, as the drivers implement it. The cleanup keeps the shape, and every entry of
  the cleaned volume is finite and non-zero. An entry that was NaN or zero becomes 1.
  An entry that was positive infinity becomes the largest finite float, one that was
  negative infinity the most negative finite float (they do not become 1), and a finite
  non-zero entry is kept.
\<close>

theorem cleanup_finite_nonzero:
  assumes "m < length (elems L)"
  shows "shape (cleanup L) = shape L
    \<and> isfinite (elems (cleanup L) ! m) \<and> \<not> fl_is_zero (elems (cleanup L) ! m)
    \<and> (elems L ! m = NaN \<or> fl_is_zero (elems L ! m) \<longrightarrow> elems (cleanup L) ! m = Fin 1)
    \<and> (elems L ! m = PInf \<longrightarrow> elems (cleanup L) ! m = Fin float_max)
    \<and> (elems L ! m = NInf \<longrightarrow> elems (cleanup L) ! m = Fin (- float_max))
    \<and> (isfinite (elems L ! m) \<and> \<not> fl_is_zero (elems L ! m)
         \<longrightarrow> elems (cleanup L) ! m = elems L ! m)"
proof -
  have pos: "float_max \<noteq> 0" using float_max_gt_one by simp
  show ?thesis
    unfolding cleanup_nth [OF assms] cleanup1_cases cleanup_shape
    using pos by (cases "elems L ! m") simp_all
qed

theorem cleanup_finite_nonzero_witness:
  "elems (cleanup \<lparr>shape = [1, 1, 2, 2], elems = [NaN, Fin 0, NInf, Fin (1 / 2)]\<rparr>)
     = [Fin 1, Fin 1, Fin (- float_max), Fin (1 / 2)]
   \<and> isfinite (elems (cleanup \<lparr>shape = [1, 1, 2, 2],
        elems = [NaN, Fin 0, NInf, Fin (1 / 2)]\<rparr>) ! 2)"
  using cleanup_finite_nonzero
    [of 2 "\<lparr>shape = [1, 1, 2, 2], elems = [NaN, Fin 0, NInf, Fin (1 / 2)]\<rparr>"]
  by (simp add: cleanup_def nan_to_num_def nd_map_def zero_to_one1_def)

text \<open>
  Claim C3 as stated fails at an infinite entry: the volume holding the single entry
  positive infinity is cleaned to the largest finite float, which is not 1.
\<close>

theorem cleanup_infinity_counterexample:
  "elems (cleanup \<lparr>shape = [1, 1, 1, 1], elems = [PInf]\<rparr>) ! 0 = Fin float_max
   \<and> Fin float_max \<noteq> Fin 1"
  using float_max_gt_one
  by (simp add: cleanup_def nan_to_num_def nd_map_def zero_to_one1_def)

subsection \<open>Normalisation\<close>

lemma sum_squares_nonneg: "0 \<le> sum_squares v"
  unfolding sum_squares_def by (induction v) simp_all

lemma sum_squares_scale: "sum_squares (map (\<lambda>x. x / c) v) = sum_squares v / c\<^sup>2"
  unfolding sum_squares_def
  by (induction v) (simp_all add: power_divide add_divide_distrib)

lemma sum_squares_unit_vector:
  assumes "sum_squares v \<noteq> 0"
  shows "sum_squares (unit_vector v) = 1"
proof -
  have "0 < sum_squares v"
    using assms sum_squares_nonneg [of v] by simp
  then have "(sqrt (sum_squares v))\<^sup>2 = sum_squares v" by simp
  then show ?thesis
    using assms by (simp add: unit_vector_def sum_squares_scale)
qed

text \<open>
  Claim C4. Whatever raw polarization vector \<open>polvect6C\<close> returns for a wave type, a
  parameter vector and a scaling velocity, if its Euclidean norm is not zero then the
  vector the drivers obtain from it by \<^verbatim>\<open>v / np.sqrt(sum(v**2))\<close> has norm 1
  (exactly, in real arithmetic).
\<close>

theorem unit_vector_norm:
  fixes polvect6C :: "'p \<Rightarrow> real \<Rightarrow> 'w \<Rightarrow> real list"
  assumes "euclid_norm (polvect6C param v_scal wtype) \<noteq> 0"
  shows "euclid_norm (unit_vector (polvect6C param v_scal wtype)) = 1"
proof -
  have "sum_squares (polvect6C param v_scal wtype) \<noteq> 0"
    using assms by (auto simp: euclid_norm_def)
  then show ?thesis
    by (simp add: euclid_norm_def sum_squares_unit_vector)
qed

theorem unit_vector_norm_witness:
  "euclid_norm [3, 4, 0, 0, 0, 0] \<noteq> 0
   \<and> euclid_norm (unit_vector [3, 4, 0, 0, 0, 0]) = 1"
proof -
  have "sqrt 25 = sqrt (5\<^sup>2)" by simp
  then have n: "euclid_norm [3, 4, 0, 0, 0, 0] = 5"
    by (simp add: euclid_norm_def sum_squares_def del: real_sqrt_abs)
  then have "euclid_norm ((\<lambda>(p::unit) (s::real) (w::unit). [3, 4, 0, 0, 0, 0]) () 1 ()) \<noteq> 0"
    by simp
  from unit_vector_norm [of "\<lambda>p s w. [3, 4, 0, 0, 0, 0]" "()" 1 "()", OF this] n
  show ?thesis by simp
qed

subsection \<open>Synthesis: which channels the wavelet loop convolves\<close>

lemma length_set_col: "length c = length data \<Longrightarrow> length (set_col data i c) = length data"
  by (simp add: set_col_def)

lemma rows_set_col:
  "\<forall>r\<in>set data. length r = k \<Longrightarrow> \<forall>r\<in>set (set_col data i c). length r = k"
  by (auto simp: set_col_def dest: set_zip_leftD)

lemma col_set_col:
  assumes "length c = length data" "\<forall>r\<in>set data. i < length r"
  shows "col (set_col data i c) j = (if j = i then c else col data j)"
  using assms
  by (auto simp: col_def set_col_def intro!: nth_equalityI)

lemma length_conv_full: "length (conv_full a v) = length a + length v - 1"
  by (simp add: conv_full_def)

lemma np_convolve_same_ok:
  assumes "a \<noteq> []" "v \<noteq> []" "length v \<le> length a"
  shows "\<exists>c. np_convolve_same a v = Inr c \<and> length c = length a"
  using assms by (cases a; cases v) (auto simp: np_convolve_same_def length_conv_full)

lemma conv_channels_frame:
  assumes "\<forall>r\<in>set data. length r = k" "\<forall>i\<in>set is. i < k" "distinct is"
    "data \<noteq> []" "wav \<noteq> []" "length wav \<le> length data"
  shows "\<exists>d. conv_channels is wav data = Inr d \<and> length d = length data
    \<and> (\<forall>r\<in>set d. length r = k)
    \<and> (\<forall>j. j \<notin> set is \<longrightarrow> col d j = col data j)
    \<and> (\<forall>j\<in>set is. np_convolve_same (col data j) wav = Inr (col d j))"
  using assms
proof (induction "is" arbitrary: data)
  case Nil
  then show ?case by simp
next
  case (Cons i "is")
  have ca: "col data i \<noteq> []" "length wav \<le> length (col data i)"
    using Cons.prems by (simp_all add: col_def)
  from np_convolve_same_ok [OF ca(1) Cons.prems(5) ca(2)]
  obtain c where c: "np_convolve_same (col data i) wav = Inr c" "length c = length data"
    by (auto simp: col_def)
  let ?d1 = "set_col data i c"
  have i: "\<forall>r\<in>set data. i < length r" using Cons.prems by simp
  have d1: "\<forall>r\<in>set ?d1. length r = k" "length ?d1 = length data"
    using rows_set_col [OF Cons.prems(1)] c(2) by (simp_all add: length_set_col)
  have "\<exists>d. conv_channels is wav ?d1 = Inr d \<and> length d = length ?d1
    \<and> (\<forall>r\<in>set d. length r = k)
    \<and> (\<forall>j. j \<notin> set is \<longrightarrow> col d j = col ?d1 j)
    \<and> (\<forall>j\<in>set is. np_convolve_same (col ?d1 j) wav = Inr (col d j))"
    using Cons.prems d1 by (intro Cons.IH) auto
  then obtain d where d: "conv_channels is wav ?d1 = Inr d" "length d = length ?d1"
    "\<forall>r\<in>set d. length r = k"
    "\<forall>j. j \<notin> set is \<longrightarrow> col d j = col ?d1 j"
    "\<forall>j\<in>set is. np_convolve_same (col ?d1 j) wav = Inr (col d j)"
    by blast
  have cs: "\<And>j. col ?d1 j = (if j = i then c else col data j)"
    using col_set_col [OF c(2) i] by simp
  have ni: "i \<notin> set is" using Cons.prems(3) by simp
  have run: "conv_channels (i # is) wav data = Inr d"
    using c d(1) by simp
  have keep: "\<forall>j. j \<notin> set (i # is) \<longrightarrow> col d j = col data j"
    using d(4) by (simp add: cs)
  have "np_convolve_same (col data j) wav = Inr (col d j)" if "j \<in> set (i # is)" for j
  proof (cases "j = i")
    case True
    then show ?thesis using c(1) d(4) ni by (simp add: cs)
  next
    case False
    then have "j \<in> set is" using that by simp
    then have "np_convolve_same (col ?d1 j) wav = Inr (col d j)"
      using d(5) by blast
    then show ?thesis using False by (simp add: cs)
  qed
  then have conv: "\<forall>j\<in>set (i # is). np_convolve_same (col data j) wav = Inr (col d j)"
    by blast
  have "length d = length data" using d(2) d1(2) by simp
  with run keep d(3) conv show ?case
    by (intro exI [of _ d] conjI)
qed

lemma list_index_ok: "x \<in> set ys \<Longrightarrow> \<exists>n. list_index ys x = Inr n \<and> n < length ys"
  by (induction ys) (auto simp: bind_err_def)

lemma col_zeros2: "col (zeros2 n c) j = replicate n 0" if "j < c"
  using that by (simp add: col_def zeros2_def map_replicate_const)

lemma length_zeros2 [simp]: "length (zeros2 n c) = n"
  by (simp add: zeros2_def)

lemma replicate_update_same [simp]: "(replicate n x)[i := x] = replicate n x"
  by (induction n arbitrary: i) (auto split: nat.splits)

lemma col_update:
  "indx < length data \<Longrightarrow> col (data[indx := v]) j = (col data j)[indx := v ! j]"
  by (simp add: col_def map_update)

lemma unit_vector_sixth: "length raw = 6 \<Longrightarrow> raw ! 5 = 0 \<Longrightarrow> unit_vector raw ! 5 = 0"
  by (simp add: unit_vector_def)

lemma set_row_ok:
  assumes "indx < length data" "length v = length (data ! indx)"
  shows "set_row data indx v = Inr (data[indx := v])"
  using assms by (simp add: set_row_def)

lemma rows_update:
  "\<forall>r\<in>set data. length r = k \<Longrightarrow> length v = k \<Longrightarrow> \<forall>r\<in>set (data[indx := v]). length r = k"
  by (auto dest!: set_update_subset_insert [THEN subsetD])

lemma convolve_loop_six:
  assumes "\<forall>r\<in>set data. length r = 6" "data \<noteq> []" "wav \<noteq> []" "length wav \<le> length data"
  shows "\<exists>d. convolve_loop wav data = Inr d
    \<and> col d 5 = col data 5
    \<and> (\<forall>j<5. np_convolve_same (col data j) wav = Inr (col d j))"
proof -
  obtain r0 rs where data: "data = r0 # rs" using assms(2) by (cases data) auto
  then have r0: "length r0 - 1 = 5" using assms(1) by simp
  have "\<forall>i\<in>set [0..<5]. i < 6" "distinct [0..<5]" by simp_all
  from conv_channels_frame [OF assms(1) this assms(2-4)]
  obtain d where d: "conv_channels [0..<5] wav data = Inr d"
    "\<forall>j. j \<notin> set [0..<5] \<longrightarrow> col d j = col data j"
    "\<forall>j\<in>set [0..<5]. np_convolve_same (col data j) wav = Inr (col d j)"
    by blast
  have "convolve_loop wav data = Inr d"
    using d(1) data r0 by (simp add: convolve_loop_def)
  moreover have "col d 5 = col data 5" using d(2) by simp
  moreover have "\<forall>j<5. np_convolve_same (col data j) wav = Inr (col d j)"
    using d(3) by simp
  ultimately show ?thesis by blast
qed

lemma inject_01_ok:
  assumes "length raw = 6" "t_1 \<in> set t"
  shows "\<exists>indx. indx < length t
    \<and> inject_01 t t_1 raw = Inr ((zeros2 (length t) 6)[indx := unit_vector raw])"
proof -
  obtain indx where i: "list_index t t_1 = Inr indx" "indx < length t"
    using list_index_ok [OF assms(2)] by blast
  have "set_row (zeros2 (length t) 6) indx (unit_vector raw)
      = Inr ((zeros2 (length t) 6)[indx := unit_vector raw])"
    using i(2) assms(1) by (intro set_row_ok) (simp_all add: zeros2_def unit_vector_def)
  then show ?thesis using i by (auto simp: inject_01_def bind_err_def)
qed

lemma inject_02_ok:
  assumes "length raw = 6" "length raw2 = 6" "t_1 \<in> set t" "t_2 \<in> set t"
  shows "\<exists>indx indx2. indx < length t \<and> indx2 < length t
    \<and> inject_02 t t_1 t_2 raw raw2
        = Inr ((zeros2 (length t) 6)[indx := unit_vector raw, indx2 := unit_vector raw2])"
proof -
  obtain indx where i: "list_index t t_1 = Inr indx" "indx < length t"
    using list_index_ok [OF assms(3)] by blast
  obtain indx2 where i2: "list_index t t_2 = Inr indx2" "indx2 < length t"
    using list_index_ok [OF assms(4)] by blast
  let ?d1 = "(zeros2 (length t) 6)[indx := unit_vector raw]"
  have s1: "set_row (zeros2 (length t) 6) indx (unit_vector raw) = Inr ?d1"
    using i(2) assms(1) by (intro set_row_ok) (simp_all add: zeros2_def unit_vector_def)
  have "\<forall>r\<in>set ?d1. length r = 6"
    using assms(1) by (intro rows_update) (simp_all add: zeros2_def unit_vector_def)
  moreover have "?d1 ! indx2 \<in> set ?d1" using i2(2) by (simp add: zeros2_def)
  ultimately have "length (?d1 ! indx2) = 6" by blast
  then have s2: "set_row ?d1 indx2 (unit_vector raw2) = Inr (?d1[indx2 := unit_vector raw2])"
    using i2(2) assms(2) by (intro set_row_ok) (simp_all add: unit_vector_def)
  show ?thesis using i i2 s1 s2 by (auto simp: inject_02_def bind_err_def)
qed

text \<open>
  Claim C10. \<open>range(0, data[0,:].size - 1)\<close> is \<open>0, ..., 4\<close> for the six-column
  record, so in both drivers the loop replaces each of the first five channels by its
  convolution with the wavelet and leaves the sixth channel as it was after the arrivals
  were written. When the raw polarization vectors have a zero sixth component, the sixth
  channel is zero at every sample before the noise is added. The drivers reach that point
  (no exception) when the arrival times are on the time axis, the raw vectors have six
  components and the wavelet is not empty and not longer than the record.
\<close>

theorem sixth_channel_not_convolved:
  assumes "length raw = 6" "euclid_norm raw \<noteq> 0"
    and "length raw2 = 6" "euclid_norm raw2 \<noteq> 0"
    and "t_1 \<in> set t" "t_2 \<in> set t"
    and "wav \<noteq> []" "length wav \<le> length t"
  shows "(\<exists>d0 d. inject_01 t t_1 raw = Inr d0 \<and> synth_01 t t_1 raw wav = Inr d
            \<and> col d 5 = col d0 5
            \<and> (\<forall>j<5. np_convolve_same (col d0 j) wav = Inr (col d j))
            \<and> (raw ! 5 = 0 \<longrightarrow> col d 5 = replicate (length t) 0))
       \<and> (\<exists>d0 d. inject_02 t t_1 t_2 raw raw2 = Inr d0
            \<and> synth_02 t t_1 t_2 raw raw2 wav = Inr d
            \<and> col d 5 = col d0 5
            \<and> (\<forall>j<5. np_convolve_same (col d0 j) wav = Inr (col d j))
            \<and> (raw ! 5 = 0 \<and> raw2 ! 5 = 0 \<longrightarrow> col d 5 = replicate (length t) 0))"
proof (intro conjI)
  have t: "t \<noteq> []" using assms(5) by auto
  have z: "\<forall>r\<in>set (zeros2 (length t) 6). length r = 6" by (simp add: zeros2_def)
  have u: "length (unit_vector raw) = 6" "length (unit_vector raw2) = 6"
    using assms(1,3) by (simp_all add: unit_vector_def)
  obtain indx where i: "indx < length t"
    "inject_01 t t_1 raw = Inr ((zeros2 (length t) 6)[indx := unit_vector raw])"
    using inject_01_ok [OF assms(1,5)] by blast
  let ?d0 = "(zeros2 (length t) 6)[indx := unit_vector raw]"
  have rows: "\<forall>r\<in>set ?d0. length r = 6" by (rule rows_update [OF z u(1)])
  have ne: "?d0 \<noteq> []" "length wav \<le> length ?d0"
    using t assms(8) by (simp_all add: zeros2_def)
  obtain d where d: "convolve_loop wav ?d0 = Inr d" "col d 5 = col ?d0 5"
    "\<forall>j<5. np_convolve_same (col ?d0 j) wav = Inr (col d j)"
    using convolve_loop_six [OF rows ne(1) assms(7) ne(2)] by blast
  have zero: "col ?d0 5 = replicate (length t) 0" if "raw ! 5 = 0"
    using that i(1) assms(1)
    by (simp add: col_update col_zeros2 unit_vector_sixth)
  show "\<exists>d0 d. inject_01 t t_1 raw = Inr d0 \<and> synth_01 t t_1 raw wav = Inr d
            \<and> col d 5 = col d0 5
            \<and> (\<forall>j<5. np_convolve_same (col d0 j) wav = Inr (col d j))
            \<and> (raw ! 5 = 0 \<longrightarrow> col d 5 = replicate (length t) 0)"
    using i(2) d zero
    by (intro exI [of _ ?d0] exI [of _ d]) (simp add: synth_01_def bind_err_def)
next
  have t: "t \<noteq> []" using assms(5) by auto
  have z: "\<forall>r\<in>set (zeros2 (length t) 6). length r = 6" by (simp add: zeros2_def)
  have u: "length (unit_vector raw) = 6" "length (unit_vector raw2) = 6"
    using assms(1,3) by (simp_all add: unit_vector_def)
  obtain indx indx2 where i: "indx < length t" "indx2 < length t"
    "inject_02 t t_1 t_2 raw raw2
       = Inr ((zeros2 (length t) 6)[indx := unit_vector raw, indx2 := unit_vector raw2])"
    using inject_02_ok [OF assms(1,3,5,6)] by blast
  let ?d0 = "(zeros2 (length t) 6)[indx := unit_vector raw, indx2 := unit_vector raw2]"
  have rows: "\<forall>r\<in>set ?d0. length r = 6"
    by (intro rows_update z u)
  have ne: "?d0 \<noteq> []" "length wav \<le> length ?d0"
    using t assms(8) by (simp_all add: zeros2_def)
  obtain d where d: "convolve_loop wav ?d0 = Inr d" "col d 5 = col ?d0 5"
    "\<forall>j<5. np_convolve_same (col ?d0 j) wav = Inr (col d j)"
    using convolve_loop_six [OF rows ne(1) assms(7) ne(2)] by blast
  have zero: "col ?d0 5 = replicate (length t) 0" if "raw ! 5 = 0 \<and> raw2 ! 5 = 0"
    using that i(1,2) assms(1,3)
    by (simp add: col_update col_zeros2 unit_vector_sixth)
  show "\<exists>d0 d. inject_02 t t_1 t_2 raw raw2 = Inr d0
            \<and> synth_02 t t_1 t_2 raw raw2 wav = Inr d
            \<and> col d 5 = col d0 5
            \<and> (\<forall>j<5. np_convolve_same (col d0 j) wav = Inr (col d j))
            \<and> (raw ! 5 = 0 \<and> raw2 ! 5 = 0 \<longrightarrow> col d 5 = replicate (length t) 0)"
    using i(3) d zero
    by (intro exI [of _ ?d0] exI [of _ d]) (simp add: synth_02_def bind_err_def)
qed

lemma sqrt_25: "sqrt 25 = 5"
proof -
  have "sqrt 25 = sqrt (5\<^sup>2)" by simp
  then show ?thesis by (simp del: real_sqrt_abs)
qed

theorem sixth_channel_not_convolved_witness:
  "euclid_norm [3, 4, 0, 0, 0, 0] \<noteq> 0 \<and> euclid_norm [0, 0, 1, 0, 0, 0] \<noteq> 0
   \<and> (\<exists>d. synth_01 [0, 1, 2, 3] 1 [3, 4, 0, 0, 0, 0] [1, 1] = Inr d
          \<and> col d 5 = [0, 0, 0, 0])
   \<and> (\<exists>d. synth_02 [0, 1, 2, 3] 1 2 [3, 4, 0, 0, 0, 0] [0, 0, 1, 0, 0, 0] [1, 1] = Inr d
          \<and> col d 5 = [0, 0, 0, 0])
   \<and> synth_01 [0, 1, 2, 3] 1 [0, 0, 0, 0, 3, 4] [1, 1]
       = Inr [[0, 0, 0, 0, 0, 0], [0, 0, 0, 0, 3 / 5, 4 / 5],
              [0, 0, 0, 0, 3 / 5, 0], [0, 0, 0, 0, 0, 0]]"
proof -
  have n: "euclid_norm [3, 4, 0, 0, 0, 0] \<noteq> 0" "euclid_norm [0, 0, 1, 0, 0, 0] \<noteq> 0"
    by (simp_all add: euclid_norm_def sum_squares_def)
  have "length [3, 4, 0, 0, 0, 0 :: real] = 6" "length [0, 0, 1, 0, 0, 0 :: real] = 6"
    "(1 :: real) \<in> set [0, 1, 2, 3]" "(2 :: real) \<in> set [0, 1, 2, 3]"
    "[1, 1 :: real] \<noteq> []" "length [1, 1 :: real] \<le> length [0, 1, 2, 3 :: real]"
    by simp_all
  note both = sixth_channel_not_convolved [OF this(1) n(1) this(2) n(2) this(3-6)]
  obtain d where d: "synth_01 [0, 1, 2, 3] 1 [3, 4, 0, 0, 0, 0] [1, 1] = Inr d"
    "[3, 4, 0, 0, 0, 0 :: real] ! 5 = 0 \<longrightarrow> col d 5 = replicate (length [0, 1, 2, 3 :: real]) 0"
    using both [THEN conjunct1] by blast
  obtain d' where d': "synth_02 [0, 1, 2, 3] 1 2 [3, 4, 0, 0, 0, 0] [0, 0, 1, 0, 0, 0] [1, 1] = Inr d'"
    "[3, 4, 0, 0, 0, 0 :: real] ! 5 = 0 \<and> [0, 0, 1, 0, 0, 0 :: real] ! 5 = 0
       \<longrightarrow> col d' 5 = replicate (length [0, 1, 2, 3 :: real]) 0"
    using both [THEN conjunct2] by blast
  have "col d 5 = [0, 0, 0, 0]" "col d' 5 = [0, 0, 0, 0]"
    using d(2) d'(2) by simp_all
  with d(1) d'(1)
  have "(\<exists>d. synth_01 [0, 1, 2, 3] 1 [3, 4, 0, 0, 0, 0] [1, 1] = Inr d
          \<and> col d 5 = [0, 0, 0, 0])
   \<and> (\<exists>d. synth_02 [0, 1, 2, 3] 1 2 [3, 4, 0, 0, 0, 0] [0, 0, 1, 0, 0, 0] [1, 1] = Inr d
          \<and> col d 5 = [0, 0, 0, 0])"
    by blast
  moreover have "synth_01 [0, 1, 2, 3] 1 [0, 0, 0, 0, 3, 4] [1, 1]
       = Inr [[0, 0, 0, 0, 0, 0], [0, 0, 0, 0, 3 / 5, 4 / 5],
              [0, 0, 0, 0, 3 / 5, 0], [0, 0, 0, 0, 0, 0]]"
    by (simp add: synth_01_def inject_01_def bind_err_def set_row_def zeros2_def
        unit_vector_def sum_squares_def convolve_loop_def col_def set_col_def
        np_convolve_same_def conv_full_def upt_rec sqrt_25 eval_nat_numeral)
  ultimately show ?thesis using n by blast
qed

subsection \<open>The grid loop and the index order of its output\<close>

lemma fold_interval_writes:
  fixes step :: "nat \<Rightarrow> 'a ndarray \<Rightarrow> 'a ndarray"
  assumes step: "\<And>m L. m < n \<Longrightarrow> shape L = S \<and> length (elems L) = N \<Longrightarrow>
      shape (step m L) = S \<and> length (elems (step m L)) = N
      \<and> (\<forall>p<N. elems (step m L) ! p =
            (if base + m * w \<le> p \<and> p < base + Suc m * w then g p else elems L ! p))"
    and inv: "shape L = S \<and> length (elems L) = N"
  shows "shape (fold step [0..<n] L) = S \<and> length (elems (fold step [0..<n] L)) = N
      \<and> (\<forall>p<N. elems (fold step [0..<n] L) ! p =
            (if base \<le> p \<and> p < base + n * w then g p else elems L ! p))"
  using step
proof (induction n)
  case 0
  then show ?case using inv by auto
next
  case (Suc n)
  let ?L = "fold step [0..<n] L"
  have IH: "shape ?L = S \<and> length (elems ?L) = N
      \<and> (\<forall>p<N. elems ?L ! p = (if base \<le> p \<and> p < base + n * w then g p else elems L ! p))"
    using Suc.prems by (intro Suc.IH) simp
  have st: "shape (step n ?L) = S \<and> length (elems (step n ?L)) = N
      \<and> (\<forall>p<N. elems (step n ?L) ! p =
            (if base + n * w \<le> p \<and> p < base + Suc n * w then g p else elems ?L ! p))"
    using IH by (intro Suc.prems) simp_all
  have f: "fold step [0..<Suc n] L = step n ?L" by simp
  show ?case
    unfolding f using st IH by auto
qed

lemma mixed_radix_less: "x < m \<Longrightarrow> y < n \<Longrightarrow> x * n + y < m * (n::nat)"
proof -
  assume a: "x < m" "y < n"
  have "x * n + y < x * n + n" using a(2) by simp
  also have "\<dots> = Suc x * n" by simp
  also have "\<dots> \<le> m * n" using a(1) by (intro mult_le_mono1) simp
  finally show ?thesis .
qed

lemma ravel_index_less:
  "list_all2 (<) idx shp \<Longrightarrow> ravel_index shp idx < prod_list shp"
proof (induction idx shp rule: list_all2_induct)
  case Nil
  then show ?case by simp
next
  case (Cons i "is" d ds)
  then show ?case using mixed_radix_less [of i d "ravel_index ds is" "prod_list ds"] by simp
qed

lemma unravel_ravel:
  "list_all2 (<) idx shp \<Longrightarrow> unravel_index (ravel_index shp idx) shp = idx"
proof (induction idx shp rule: list_all2_induct)
  case Nil
  then show ?case by simp
next
  case (Cons i "is" d ds)
  have "ravel_index ds is < prod_list ds" using Cons.hyps(2) by (rule ravel_index_less)
  then show ?case using Cons.IH by simp
qed

lemma ravel_unravel:
  "m < prod_list shp \<Longrightarrow> ravel_index shp (unravel_index m shp) = m
     \<and> list_all2 (<) (unravel_index m shp) shp"
proof (induction shp arbitrary: m)
  case Nil
  then show ?case by simp
next
  case (Cons d ds)
  have pos: "0 < prod_list ds" using Cons.prems by (cases "prod_list ds = 0") simp_all
  then have "m mod prod_list ds < prod_list ds" by simp
  from Cons.IH [OF this] have IH: "ravel_index ds (unravel_index (m mod prod_list ds) ds) = m mod prod_list ds"
    "list_all2 (<) (unravel_index (m mod prod_list ds) ds) ds" by simp_all
  have "m div prod_list ds < d"
    using Cons.prems pos by (simp add: less_mult_imp_div_less mult.commute)
  then show ?case using IH by simp
qed

lemma ravel_index4:
  "ravel_index [a, b, c, d] [i, j, k, l] = i * (b * c * d) + j * (c * d) + k * d + l"
  by simp

lemma nd_set_props:
  assumes "shape L = S" "length (elems L) = N" "ravel_index S idx < N"
  shows "shape (nd_set L idx x) = S \<and> length (elems (nd_set L idx x)) = N
    \<and> (\<forall>p<N. elems (nd_set L idx x) ! p = (if p = ravel_index S idx then x else elems L ! p))"
  using assms by (auto simp: nd_set_def)


lemma in_range4: "i < a \<Longrightarrow> j < b \<Longrightarrow> k < c \<Longrightarrow> l < d \<Longrightarrow> list_all2 (<) [i, j, k, l] [a, b, c, (d::nat)]"
  by simp

lemma loop_vs:
  assumes inv: "shape L = [a, b, c, d] \<and> length (elems L) = a * b * c * d"
    and r: "i < a" "j < b" "k < c" "n \<le> d"
  shows "shape (fold (\<lambda>l L. nd_set L [i, j, k, l] (F [i, j, k, l])) [0..<n] L) = [a, b, c, d]
    \<and> length (elems (fold (\<lambda>l L. nd_set L [i, j, k, l] (F [i, j, k, l])) [0..<n] L)) = a * b * c * d
    \<and> (\<forall>p<a * b * c * d.
          elems (fold (\<lambda>l L. nd_set L [i, j, k, l] (F [i, j, k, l])) [0..<n] L) ! p =
            (if i * (b * c * d) + j * (c * d) + k * d \<le> p
                \<and> p < i * (b * c * d) + j * (c * d) + k * d + n * 1
             then F (unravel_index p [a, b, c, d]) else elems L ! p))"
proof (rule fold_interval_writes [OF _ inv])
  fix m and L' :: "'a ndarray"
  assume m: "m < n" and inv': "shape L' = [a, b, c, d] \<and> length (elems L') = a * b * c * d"
  have rng: "list_all2 (<) [i, j, k, m] [a, b, c, d]" using r m by simp
  have lt: "ravel_index [a, b, c, d] [i, j, k, m] < a * b * c * d"
    using ravel_index_less [OF rng] by (simp add: mult.assoc)
  have un: "unravel_index (ravel_index [a, b, c, d] [i, j, k, m]) [a, b, c, d] = [i, j, k, m]"
    by (rule unravel_ravel [OF rng])
  have rv: "ravel_index [a, b, c, d] [i, j, k, m] = i * (b * c * d) + j * (c * d) + k * d + m"
    by (rule ravel_index4)
  from nd_set_props [OF conjunct1 [OF inv'] conjunct2 [OF inv'] lt, of "F [i, j, k, m]"]
  show "shape (nd_set L' [i, j, k, m] (F [i, j, k, m])) = [a, b, c, d]
    \<and> length (elems (nd_set L' [i, j, k, m] (F [i, j, k, m]))) = a * b * c * d
    \<and> (\<forall>p<a * b * c * d. elems (nd_set L' [i, j, k, m] (F [i, j, k, m])) ! p =
          (if i * (b * c * d) + j * (c * d) + k * d + m * 1 \<le> p
              \<and> p < i * (b * c * d) + j * (c * d) + k * d + Suc m * 1
           then F (unravel_index p [a, b, c, d]) else elems L' ! p))"
    using un unfolding rv by (auto simp: le_less_Suc_eq)
qed


lemma grid_search_elems:
  "shape (grid_search lik tp) = grid_shape tp
   \<and> length (elems (grid_search lik tp)) = prod_list (grid_shape tp)
   \<and> (\<forall>p<prod_list (grid_shape tp).
         elems (grid_search lik tp) ! p = node_at lik tp (unravel_index p (grid_shape tp)))"
proof -
  define a b c d where abcd: "a = length (tp_theta tp)" "b = length (tp_phi tp)"
    "c = length (tp_vp tp)" "d = length (tp_vs tp)"
  define F where "F = node_at lik tp"
  define G where "G = (\<lambda>p. F (unravel_index p [a, b, c, d]))"
  define inv where "inv = (\<lambda>L :: fl ndarray. shape L = [a, b, c, d] \<and> length (elems L) = a * b * c * d)"
  define st4 where "st4 = (\<lambda>i j k l (L :: fl ndarray). nd_set L [i, j, k, l] (F [i, j, k, l]))"
  define st3 where "st3 = (\<lambda>i j k. fold (st4 i j k) [0..<d])"
  define st2 where "st2 = (\<lambda>i j. fold (st3 i j) [0..<c])"
  define st1 where "st1 = (\<lambda>i. fold (st2 i) [0..<b])"
  have gs: "grid_search lik tp = fold st1 [0..<a] (nd_zeros [a, b, c, d])"
    by (simp add: grid_search_def grid_shape_def st1_def st2_def st3_def st4_def F_def
        node_at_def abcd)
  have l3: "inv (st3 i j k L) \<and> (\<forall>p<a * b * c * d. elems (st3 i j k L) ! p =
      (if i * (b * c * d) + j * (c * d) + k * d \<le> p
          \<and> p < i * (b * c * d) + j * (c * d) + Suc k * d
       then G p else elems L ! p))"
    if "i < a" "j < b" "k < c" "inv L" for i j k L
    using loop_vs [of L a b c d i j k d F] that
    by (simp add: inv_def st3_def st4_def G_def add.assoc)
  have l2: "inv (st2 i j L) \<and> (\<forall>p<a * b * c * d. elems (st2 i j L) ! p =
      (if i * (b * c * d) + j * (c * d) \<le> p
          \<and> p < i * (b * c * d) + Suc j * (c * d)
       then G p else elems L ! p))"
    if "i < a" "j < b" "inv L" for i j L
  proof -
    have "shape (fold (st3 i j) [0..<c] L) = [a, b, c, d]
      \<and> length (elems (fold (st3 i j) [0..<c] L)) = a * b * c * d
      \<and> (\<forall>p<a * b * c * d. elems (fold (st3 i j) [0..<c] L) ! p =
          (if i * (b * c * d) + j * (c * d) \<le> p \<and> p < i * (b * c * d) + j * (c * d) + c * d
           then G p else elems L ! p))"
    proof (rule fold_interval_writes)
      show "shape L = [a, b, c, d] \<and> length (elems L) = a * b * c * d"
        using that(3) by (simp add: inv_def)
    next
      fix m and L' :: "fl ndarray"
      assume "m < c" "shape L' = [a, b, c, d] \<and> length (elems L') = a * b * c * d"
      then show "shape (st3 i j m L') = [a, b, c, d]
        \<and> length (elems (st3 i j m L')) = a * b * c * d
        \<and> (\<forall>p<a * b * c * d. elems (st3 i j m L') ! p =
          (if i * (b * c * d) + j * (c * d) + m * d \<le> p
              \<and> p < i * (b * c * d) + j * (c * d) + Suc m * d
           then G p else elems L' ! p))"
        using l3 [of i j m L'] that(1,2) by (simp add: inv_def)
    qed
    then show ?thesis by (simp add: st2_def inv_def add.assoc)
  qed
  have l1: "inv (st1 i L) \<and> (\<forall>p<a * b * c * d. elems (st1 i L) ! p =
      (if 0 + i * (b * c * d) \<le> p \<and> p < 0 + Suc i * (b * c * d)
       then G p else elems L ! p))"
    if "i < a" "inv L" for i L
  proof -
    have "shape (fold (st2 i) [0..<b] L) = [a, b, c, d]
      \<and> length (elems (fold (st2 i) [0..<b] L)) = a * b * c * d
      \<and> (\<forall>p<a * b * c * d. elems (fold (st2 i) [0..<b] L) ! p =
          (if i * (b * c * d) \<le> p \<and> p < i * (b * c * d) + b * (c * d)
           then G p else elems L ! p))"
    proof (rule fold_interval_writes)
      show "shape L = [a, b, c, d] \<and> length (elems L) = a * b * c * d"
        using that(2) by (simp add: inv_def)
    next
      fix m and L' :: "fl ndarray"
      assume "m < b" "shape L' = [a, b, c, d] \<and> length (elems L') = a * b * c * d"
      then show "shape (st2 i m L') = [a, b, c, d]
        \<and> length (elems (st2 i m L')) = a * b * c * d
        \<and> (\<forall>p<a * b * c * d. elems (st2 i m L') ! p =
          (if i * (b * c * d) + m * (c * d) \<le> p
              \<and> p < i * (b * c * d) + Suc m * (c * d)
           then G p else elems L' ! p))"
        using l2 [of i m L'] that(1) by (simp add: inv_def)
    qed
    then show ?thesis by (simp add: st1_def inv_def mult.assoc)
  qed
  have z: "shape (nd_zeros [a, b, c, d]) = [a, b, c, d]
      \<and> length (elems (nd_zeros [a, b, c, d])) = a * b * c * d"
    by (simp add: nd_zeros_def mult.assoc)
  have "shape (fold st1 [0..<a] (nd_zeros [a, b, c, d])) = [a, b, c, d]
      \<and> length (elems (fold st1 [0..<a] (nd_zeros [a, b, c, d]))) = a * b * c * d
      \<and> (\<forall>p<a * b * c * d. elems (fold st1 [0..<a] (nd_zeros [a, b, c, d])) ! p =
          (if 0 \<le> p \<and> p < 0 + a * (b * c * d)
           then G p else elems (nd_zeros [a, b, c, d]) ! p))"
  proof (rule fold_interval_writes [OF _ z])
    fix m and L' :: "fl ndarray"
    assume "m < a" "shape L' = [a, b, c, d] \<and> length (elems L') = a * b * c * d"
    then show "shape (st1 m L') = [a, b, c, d]
        \<and> length (elems (st1 m L')) = a * b * c * d
        \<and> (\<forall>p<a * b * c * d. elems (st1 m L') ! p =
          (if 0 + m * (b * c * d) \<le> p \<and> p < 0 + Suc m * (b * c * d)
           then G p else elems L' ! p))"
      using l1 [of m L'] by (simp add: inv_def)
  qed
  then show ?thesis
    unfolding gs by (simp add: grid_shape_def abcd [symmetric] G_def F_def mult.assoc)
qed

lemma grid_search_nth:
  assumes "i < length (tp_theta tp)" "j < length (tp_phi tp)"
    "k < length (tp_vp tp)" "l < length (tp_vs tp)"
  shows "nd_get (grid_search lik tp) [i, j, k, l]
    = lik (tp_theta tp ! i) (tp_phi tp ! j) (tp_vp tp ! k) (tp_vs tp ! l)"
proof -
  have rng: "list_all2 (<) [i, j, k, l] (grid_shape tp)"
    using assms by (simp add: grid_shape_def)
  note gs = grid_search_elems [of lik tp]
  have "elems (grid_search lik tp) ! ravel_index (grid_shape tp) [i, j, k, l]
      = node_at lik tp (unravel_index (ravel_index (grid_shape tp) [i, j, k, l]) (grid_shape tp))"
    using gs ravel_index_less [OF rng] by blast
  then show ?thesis
    using gs by (simp add: nd_get_def unravel_ravel [OF rng] node_at_def)
qed

lemma cleanup_get:
  assumes "length (elems L) = prod_list (shape L)" "list_all2 (<) idx (shape L)"
  shows "nd_get (cleanup L) idx = zero_to_one1 (nan_to_num1 (nd_get L idx))"
  using ravel_index_less [OF assms(2)] assms(1)
  by (simp add: nd_get_def cleanup_shape cleanup_nth)

lemma slice_last2_get:
  assumes "shape L = [a, b, c, d]" "i < a" "j < b" "k < c" "l < d"
  shows "\<exists>s. slice_last2 L k l = Inr s \<and> shape s = [a, b]
    \<and> nd_get s [i, j] = nd_get L [i, j, k, l]"
proof -
  have "i * b + j < a * b" using assms(2,3) by (rule mixed_radix_less)
  then show ?thesis
    using assms by (simp add: slice_last2_def nd_get_def)
qed

lemma slice_first2_get:
  assumes "shape L = [a, b, c, d]" "i < a" "j < b" "k < c" "l < d"
  shows "\<exists>s. slice_first2 L i j = Inr s \<and> shape s = [c, d]
    \<and> nd_get s [k, l] = nd_get L [i, j, k, l]"
proof -
  have "k * d + l < c * d" using assms(4,5) by (rule mixed_radix_less)
  then show ?thesis
    using assms by (simp add: slice_first2_def nd_get_def)
qed


text \<open>
  Claim C5. The volume the grid search returns has the axes \<open>theta\<close>, \<open>phi\<close>, \<open>vp\<close>,
  \<open>vs\<close> in this order: its entry \<open>[i, j, k, l]\<close> is the likelihood of
  \<open>(theta[i], phi[j], vp[k], vs[l])\<close>. The callers' reading agrees with it:
  \<open>unravel_index\<close> maps the flat position of that entry back to \<open>[i, j, k, l]\<close>, the
  cleaned entry is the cleaned likelihood of the same combination, the plane
  \<open>L_[:,:,k,l]\<close> is indexed by \<open>(theta, phi)\<close> and the plane \<open>L_[i,j,:,:]\<close> by
  \<open>(vp, vs)\<close>.
\<close>

theorem likelihood_volume_axes:
  assumes "i < length (tp_theta tp)" "j < length (tp_phi tp)"
    "k < length (tp_vp tp)" "l < length (tp_vs tp)"
  shows "shape (grid_search lik tp)
      = [length (tp_theta tp), length (tp_phi tp), length (tp_vp tp), length (tp_vs tp)]
    \<and> nd_get (grid_search lik tp) [i, j, k, l]
      = lik (tp_theta tp ! i) (tp_phi tp ! j) (tp_vp tp ! k) (tp_vs tp ! l)
    \<and> np_unravel_index (ravel_index (shape (grid_search lik tp)) [i, j, k, l])
        (shape (cleanup (grid_search lik tp))) = Inr [i, j, k, l]
    \<and> nd_get (cleanup (grid_search lik tp)) [i, j, k, l]
      = zero_to_one1 (nan_to_num1
          (lik (tp_theta tp ! i) (tp_phi tp ! j) (tp_vp tp ! k) (tp_vs tp ! l)))
    \<and> (\<exists>s. slice_last2 (cleanup (grid_search lik tp)) k l = Inr s
          \<and> shape s = [length (tp_theta tp), length (tp_phi tp)]
          \<and> nd_get s [i, j] = nd_get (cleanup (grid_search lik tp)) [i, j, k, l])
    \<and> (\<exists>s. slice_first2 (cleanup (grid_search lik tp)) i j = Inr s
          \<and> shape s = [length (tp_vp tp), length (tp_vs tp)]
          \<and> nd_get s [k, l] = nd_get (cleanup (grid_search lik tp)) [i, j, k, l])"
proof -
  let ?L = "grid_search lik tp"
  note gs = grid_search_elems [of lik tp]
  have sh: "shape ?L = [length (tp_theta tp), length (tp_phi tp), length (tp_vp tp), length (tp_vs tp)]"
    using gs by (simp add: grid_shape_def)
  have rng: "list_all2 (<) [i, j, k, l] (shape ?L)"
    using assms by (simp add: sh)
  have len: "length (elems ?L) = prod_list (shape ?L)" using gs by simp
  have get: "nd_get ?L [i, j, k, l]
      = lik (tp_theta tp ! i) (tp_phi tp ! j) (tp_vp tp ! k) (tp_vs tp ! l)"
    by (rule grid_search_nth [OF assms])
  have un: "np_unravel_index (ravel_index (shape ?L) [i, j, k, l]) (shape (cleanup ?L))
      = Inr [i, j, k, l]"
    using ravel_index_less [OF rng] unravel_ravel [OF rng]
    by (simp add: np_unravel_index_def cleanup_shape)
  have cl: "nd_get (cleanup ?L) [i, j, k, l]
      = zero_to_one1 (nan_to_num1
          (lik (tp_theta tp ! i) (tp_phi tp ! j) (tp_vp tp ! k) (tp_vs tp ! l)))"
    using cleanup_get [OF len rng] get by simp
  have csh: "shape (cleanup ?L)
      = [length (tp_theta tp), length (tp_phi tp), length (tp_vp tp), length (tp_vs tp)]"
    by (simp add: cleanup_shape sh)
  show ?thesis
    using sh get un cl slice_last2_get [OF csh assms] slice_first2_get [OF csh assms]
    by (intro conjI)
qed

theorem likelihood_volume_axes_witness:
  "nd_get (grid_search (\<lambda>theta phi vp vs. Fin (theta + phi + vp + vs))
       \<lparr>tp_theta = [0, 5], tp_phi = [10], tp_vp = [200, 300], tp_vs = [100]\<rparr>) [1, 0, 1, 0]
     = Fin 415
   \<and> elems (grid_search (\<lambda>theta phi vp vs. Fin (theta + phi + vp + vs))
       \<lparr>tp_theta = [0, 5], tp_phi = [10], tp_vp = [200, 300], tp_vs = [100]\<rparr>)
     = [Fin 310, Fin 410, Fin 315, Fin 415]"
proof -
  let ?tp = "\<lparr>tp_theta = [0, 5], tp_phi = [10], tp_vp = [200, 300], tp_vs = [100]\<rparr>"
  have "1 < length (tp_theta ?tp)" "0 < length (tp_phi ?tp)"
    "1 < length (tp_vp ?tp)" "0 < length (tp_vs ?tp)"
    by simp_all
  from likelihood_volume_axes [OF this, of "\<lambda>theta phi vp vs. Fin (theta + phi + vp + vs)"]
  have "nd_get (grid_search (\<lambda>theta phi vp vs. Fin (theta + phi + vp + vs)) ?tp) [1, 0, 1, 0]
     = Fin 415"
    by simp
  moreover have "elems (grid_search (\<lambda>theta phi vp vs. Fin (theta + phi + vp + vs)) ?tp)
     = [Fin 310, Fin 410, Fin 315, Fin 415]"
    by (simp add: grid_search_def grid_shape_def nd_zeros_def nd_set_def upt_rec)
  ultimately show ?thesis by simp
qed

subsection \<open>The engine's failure conditions\<close>

text \<open>
  Claim C7. The coherency estimation fails with \<open>InvalidWindow\<close> exactly when the
  requested window does not lie within the signal; for a window of at least one sample
  that is exactly when some sample position of the window is outside the signal. In
  particular a window longer than the signal always fails. \<open>InvalidWindow\<close> is the only
  failure of the estimation, and when it does not fail it returns the matrix of a window
  that has the requested number of samples.
\<close>

theorem estimate_invalid_window:
  "(estimate normalise conv data centerIndex windowLength = Inl InvalidWindow
      \<longleftrightarrow> window_start conv centerIndex (sample_count windowLength) < 0
          \<or> int (length data)
              < window_start conv centerIndex (sample_count windowLength)
                  + int (sample_count windowLength))
   \<and> (0 < sample_count windowLength \<longrightarrow>
        (estimate normalise conv data centerIndex windowLength = Inl InvalidWindow
          \<longleftrightarrow> (\<exists>p. window_start conv centerIndex (sample_count windowLength) \<le> p
                 \<and> p < window_start conv centerIndex (sample_count windowLength)
                         + int (sample_count windowLength)
                 \<and> (p < 0 \<or> int (length data) \<le> p))))
   \<and> (length data < sample_count windowLength
        \<longrightarrow> estimate normalise conv data centerIndex windowLength = Inl InvalidWindow)
   \<and> (\<forall>e. estimate normalise conv data centerIndex windowLength = Inl e \<longrightarrow> e = InvalidWindow)
   \<and> (estimate normalise conv data centerIndex windowLength \<noteq> Inl InvalidWindow
        \<longrightarrow> estimate normalise conv data centerIndex windowLength
              = Inr (normalise
                  (gram (take (sample_count windowLength)
                     (drop (nat (window_start conv centerIndex (sample_count windowLength))) data)))
                  (sample_count windowLength))
            \<and> length (take (sample_count windowLength)
                  (drop (nat (window_start conv centerIndex (sample_count windowLength))) data))
                = sample_count windowLength)"
proof -
  define n where "n = sample_count windowLength"
  define s where "s = window_start conv centerIndex n"
  define bad where "bad \<longleftrightarrow> s < 0 \<or> int (length data) < s + int n"
  have est: "estimate normalise conv data centerIndex windowLength
      = (if bad then Inl InvalidWindow else Inr (normalise (gram (take n (drop (nat s) data))) n))"
    by (simp add: estimate_def Let_def n_def s_def bad_def)
  have pos: "bad \<longleftrightarrow> (\<exists>p. s \<le> p \<and> p < s + int n \<and> (p < 0 \<or> int (length data) \<le> p))"
    if "0 < n"
  proof
    assume bad
    then consider "s < 0" | "int (length data) < s + int n" by (auto simp: bad_def)
    then show "\<exists>p. s \<le> p \<and> p < s + int n \<and> (p < 0 \<or> int (length data) \<le> p)"
    proof cases
      case 1
      then show ?thesis using that by (intro exI [of _ s]) simp
    next
      case 2
      then show ?thesis using that by (intro exI [of _ "s + int n - 1"]) simp
    qed
  next
    assume "\<exists>p. s \<le> p \<and> p < s + int n \<and> (p < 0 \<or> int (length data) \<le> p)"
    then show bad by (auto simp: bad_def)
  qed
  have long: "bad" if "length data < n"
  proof (cases "s < 0")
    case True
    then show ?thesis by (simp add: bad_def)
  next
    case False
    then show ?thesis using that by (simp add: bad_def)
  qed
  have inside: "length (take n (drop (nat s) data)) = n" if "\<not> bad"
    using that by (auto simp: bad_def)
  show ?thesis
    unfolding n_def [symmetric] s_def [symmetric] est
    using pos long inside by (auto simp: bad_def [symmetric])
qed


theorem estimate_invalid_window_witness:
  "estimate (\<lambda>C n. C) Centered
      [[1, 0, 0, 0, 0, 0], [0, 1, 0, 0, 0, 0], [0, 0, 1, 0, 0, 0]] 1 4 = Inl InvalidWindow
   \<and> estimate (\<lambda>C n. C) Starting
      [[1, 0, 0, 0, 0, 0], [0, 1, 0, 0, 0, 0], [0, 0, 1, 0, 0, 0]] 1 2
       = Inr (gram [[0, 1, 0, 0, 0, 0], [0, 0, 1, 0, 0, 0]])"
proof -
  let ?data = "[[1, 0, 0, 0, 0, 0], [0, 1, 0, 0, 0, 0], [0, 0, 1, 0, 0, 0 :: real]]"
  have n: "sample_count 4 = 4" "sample_count 2 = 2" by (simp_all add: sample_count_def)
  have "estimate (\<lambda>C n. C) Centered ?data 1 4 = Inl InvalidWindow"
    using estimate_invalid_window [of "\<lambda>C n. C" Centered ?data 1 4] by (simp add: n)
  moreover have "estimate (\<lambda>C n. C) Starting ?data 1 2
       = Inr (gram [[0, 1, 0, 0, 0, 0], [0, 0, 1, 0, 0, 0]])"
    using estimate_invalid_window [of "\<lambda>C n. C" Starting ?data 1 2]
    by (simp add: n window_start_def)
  ultimately show ?thesis by simp
qed

text \<open>
  Claim C8. When the coherency matrix and the projector are available, a grid node whose
  theoretical polarization vector has zero norm does not abort the search: the search
  returns a volume, the node's entry is the sentinel zero, and the callers' cleanup turns
  that entry into 1.
\<close>

theorem degenerate_node_sentinel:
  assumes "estimate normalise conv data centerIndex windowLength = Inr C"
    and "project C subspaceSelector coherencyEpsilon = Inr Q"
    and "i < length (tp_theta testParam)" "j < length (tp_phi testParam)"
      "k < length (tp_vp testParam)" "l < length (tp_vs testParam)"
    and "euclid_norm (model waveType (tp_theta testParam ! i) (tp_phi testParam ! j)
          (tp_vp testParam ! k) (tp_vs testParam ! l) scalingVelocity) = 0"
  shows "\<exists>V. search normalise conv project model data testParam waveType scalingVelocity
            centerIndex windowLength subspaceSelector coherencyEpsilon modelEpsilon = Inr V
      \<and> nd_get V [i, j, k, l] = Fin 0
      \<and> nd_get (cleanup V) [i, j, k, l] = Fin 1"
proof -
  let ?lik = "\<lambda>theta phi vp vs.
      node_likelihood Q modelEpsilon (model waveType theta phi vp vs scalingVelocity)"
  let ?V = "grid_search ?lik testParam"
  have run: "search normalise conv project model data testParam waveType scalingVelocity
      centerIndex windowLength subspaceSelector coherencyEpsilon modelEpsilon = Inr ?V"
    using assms(1,2) by (simp add: search_def)
  have "sum_squares (model waveType (tp_theta testParam ! i) (tp_phi testParam ! j)
          (tp_vp testParam ! k) (tp_vs testParam ! l) scalingVelocity) = 0"
    using assms(7) by (simp add: euclid_norm_def)
  then have node: "nd_get ?V [i, j, k, l] = Fin 0"
    by (simp add: grid_search_nth [OF assms(3-6)] node_likelihood_def)
  note gs = grid_search_elems [of ?lik testParam]
  have rng: "list_all2 (<) [i, j, k, l] (shape ?V)"
    using assms(3-6) gs by (simp add: grid_shape_def)
  have len: "length (elems ?V) = prod_list (shape ?V)" using gs by simp
  have "nd_get (cleanup ?V) [i, j, k, l] = Fin 1"
    using cleanup_get [OF len rng] node by (simp add: zero_to_one1_def)
  with run node show ?thesis by blast
qed


lemma sqrt_4: "sqrt 4 = 2"
proof -
  have "sqrt 4 = sqrt (2\<^sup>2)" by simp
  then show ?thesis by (simp del: real_sqrt_abs)
qed

theorem degenerate_node_sentinel_witness:
  "(\<exists>V. search (\<lambda>C n. C) Starting (\<lambda>C (sel :: unit) eps. Inr C)
        (\<lambda>(w :: unit) theta phi vp vs sc.
           if theta = 0 then [0, 0, 0, 0, 0, 0] else [2, 0, 0, 0, 0, 0])
        [[1, 0, 0, 0, 0, 0]]
        \<lparr>tp_theta = [0, 1], tp_phi = [0], tp_vp = [300], tp_vs = [170]\<rparr>
        () 340 0 1 () 0 (1 / 100) = Inr V
      \<and> nd_get V [0, 0, 0, 0] = Fin 0 \<and> nd_get (cleanup V) [0, 0, 0, 0] = Fin 1)
   \<and> search (\<lambda>C n. C) Starting (\<lambda>C (sel :: unit) eps. Inr C)
        (\<lambda>(w :: unit) theta phi vp vs sc.
           if theta = 0 then [0, 0, 0, 0, 0, 0] else [2, 0, 0, 0, 0, 0])
        [[1, 0, 0, 0, 0, 0]]
        \<lparr>tp_theta = [0, 1], tp_phi = [0], tp_vp = [300], tp_vs = [170]\<rparr>
        () 340 0 1 () 0 (1 / 100)
      = Inr \<lparr>shape = [2, 1, 1, 1], elems = [Fin 0, Fin (100 / 101)]\<rparr>"
proof -
  let ?tp = "\<lparr>tp_theta = [0, 1], tp_phi = [0], tp_vp = [300], tp_vs = [170]\<rparr>"
  let ?model = "\<lambda>(w :: unit) (theta :: real) (phi :: real) (vp :: real) (vs :: real) (sc :: real).
      if theta = 0 then [0, 0, 0, 0, 0, 0 :: real] else [2, 0, 0, 0, 0, 0]"
  let ?C = "gram (take 1 (drop 0 [[1, 0, 0, 0, 0, 0 :: real]]))"
  have e: "estimate (\<lambda>C n. C) Starting [[1, 0, 0, 0, 0, 0]] 0 1 = Inr ?C"
    by (simp add: estimate_def sample_count_def window_start_def)
  have w: "\<exists>V. search (\<lambda>C n. C) Starting (\<lambda>C (sel :: unit) eps. Inr C) ?model
        [[1, 0, 0, 0, 0, 0]] ?tp () 340 0 1 () 0 (1 / 100) = Inr V
      \<and> nd_get V [0, 0, 0, 0] = Fin 0 \<and> nd_get (cleanup V) [0, 0, 0, 0] = Fin 1"
  proof (rule degenerate_node_sentinel [where C = ?C and Q = ?C])
    show "estimate (\<lambda>C n. C) Starting [[1, 0, 0, 0, 0, 0]] 0 1 = Inr ?C" by (rule e)
  qed (simp_all add: euclid_norm_def sum_squares_def)
  have "search (\<lambda>C n. C) Starting (\<lambda>C (sel :: unit) eps. Inr C) ?model
        [[1, 0, 0, 0, 0, 0]] ?tp () 340 0 1 () 0 (1 / 100)
      = Inr \<lparr>shape = [2, 1, 1, 1], elems = [Fin 0, Fin (100 / 101)]\<rparr>"
    by (simp add: search_def estimate_def sample_count_def window_start_def gram_def
        grid_search_def grid_shape_def nd_zeros_def nd_set_def node_likelihood_def
        sum_squares_def unit_vector_def quad_form_def upt_rec sqrt_4)
  with w show ?thesis by blast
qed

subsection \<open>What the drivers take from the search, and what they compute themselves\<close>

lemma argmax_from_Fin:
  "\<exists>ri rv. argmax_from (Fin m) mi i (map Fin rs) = (ri, Fin rv) \<and> m \<le> rv
     \<and> (\<forall>x\<in>set rs. x \<le> rv)
     \<and> ((ri = mi \<and> rv = m) \<or> (i \<le> ri \<and> ri < i + length rs \<and> rs ! (ri - i) = rv))"
proof (induction rs arbitrary: m mi i)
  case Nil
  then show ?case by simp
next
  case (Cons r rs)
  show ?case
  proof (cases "r \<le> m")
    case True
    obtain ri rv where h: "argmax_from (Fin m) mi (Suc i) (map Fin rs) = (ri, Fin rv)"
      "m \<le> rv" "\<forall>x\<in>set rs. x \<le> rv"
      "(ri = mi \<and> rv = m) \<or> (Suc i \<le> ri \<and> ri < Suc i + length rs \<and> rs ! (ri - Suc i) = rv)"
      using Cons.IH [of m mi "Suc i"] by blast
    have "(ri = mi \<and> rv = m)
        \<or> (i \<le> ri \<and> ri < i + length (r # rs) \<and> (r # rs) ! (ri - i) = rv)"
      using h(4) by (auto simp: Suc_diff_le)
    then show ?thesis using True h(1,2,3) by auto
  next
    case False
    obtain ri rv where h: "argmax_from (Fin r) i (Suc i) (map Fin rs) = (ri, Fin rv)"
      "r \<le> rv" "\<forall>x\<in>set rs. x \<le> rv"
      "(ri = i \<and> rv = r) \<or> (Suc i \<le> ri \<and> ri < Suc i + length rs \<and> rs ! (ri - Suc i) = rv)"
      using Cons.IH [of r i "Suc i"] by blast
    have "(ri = mi \<and> rv = m)
        \<or> (i \<le> ri \<and> ri < i + length (r # rs) \<and> (r # rs) ! (ri - i) = rv)"
      using h(4) by (auto simp: Suc_diff_le)
    then show ?thesis using False h(1,2,3) by auto
  qed
qed

lemma np_argmax_Fin:
  assumes "rs \<noteq> []"
  shows "\<exists>ri rv. np_argmax (map Fin rs) = Inr ri \<and> np_max (map Fin rs) = Inr (Fin rv)
    \<and> ri < length rs \<and> rs ! ri = rv \<and> (\<forall>p<length rs. rs ! p \<le> rv)"
proof -
  obtain m ms where rs: "rs = m # ms" using assms by (cases rs) auto
  obtain ri rv where h: "argmax_from (Fin m) 0 1 (map Fin ms) = (ri, Fin rv)" "m \<le> rv"
    "\<forall>x\<in>set ms. x \<le> rv"
    "(ri = 0 \<and> rv = m) \<or> (1 \<le> ri \<and> ri < 1 + length ms \<and> ms ! (ri - 1) = rv)"
    using argmax_from_Fin [of m 0 1 ms] by blast
  have a: "ri < length rs \<and> rs ! ri = rv"
    using h(4) rs by (auto simp: nth_Cons')
  have b: "\<forall>p<length rs. rs ! p \<le> rv"
    using h(2,3) rs by (auto simp: nth_Cons' )
  show ?thesis using h(1) a b rs by (simp add: np_argmax_def np_max_def)
qed

lemma cleaned_abs_finite: "\<exists>r. fl_abs (zero_to_one1 (nan_to_num1 x)) = Fin r"
  by (cases x) (simp_all add: zero_to_one1_def)

lemma cleaned_abs_reals:
  "\<exists>rs. map fl_abs (elems (cleanup L)) = map Fin rs \<and> length rs = length (elems L)"
proof -
  define f where "f = (\<lambda>x. SOME r. fl_abs (zero_to_one1 (nan_to_num1 x)) = Fin r)"
  have "fl_abs (zero_to_one1 (nan_to_num1 x)) = Fin (f x)" for x
    unfolding f_def using cleaned_abs_finite [of x] by (rule someI_ex)
  then have "map fl_abs (elems (cleanup L)) = map Fin (map f (elems L))"
    by (simp add: cleanup_def nan_to_num_def nd_map_def)
  then show ?thesis by (intro exI [of _ "map f (elems L)"]) simp
qed


lemma postprocess_ok:
  assumes sh: "shape L = [a, b, c, d]" and len: "length (elems L) = a * b * c * d"
    and ne: "0 < a * b * c * d"
  shows "\<exists>r i j k l. postprocess L = Inr r
     \<and> an_L' r = cleanup L
     \<and> np_argmax (map fl_abs (elems (cleanup L))) = Inr (an_maxidx r)
     \<and> np_max (map fl_abs (elems (cleanup L))) = Inr (an_maxval r)
     \<and> an_maxidx r < a * b * c * d
     \<and> an_maxval r = fl_abs (elems (cleanup L) ! an_maxidx r)
     \<and> (\<forall>p<a * b * c * d. fl_le (fl_abs (elems (cleanup L) ! p)) (an_maxval r))
     \<and> an_ijkl r = (i, j, k, l) \<and> i < a \<and> j < b \<and> k < c \<and> l < d
     \<and> ravel_index [a, b, c, d] [i, j, k, l] = an_maxidx r"
proof -
  let ?A = "map fl_abs (elems (cleanup L))"
  obtain rs where rs: "?A = map Fin rs" "length rs = length (elems L)"
    using cleaned_abs_reals by blast
  have "rs \<noteq> []" using rs(2) len ne by auto
  then obtain ri rv where m: "np_argmax (map Fin rs) = Inr ri" "np_max (map Fin rs) = Inr (Fin rv)"
    "ri < length rs" "rs ! ri = rv" "\<forall>p<length rs. rs ! p \<le> rv"
    using np_argmax_Fin by blast
  have N: "prod_list [a, b, c, d] = a * b * c * d" by (simp add: mult.assoc)
  have ri: "ri < prod_list [a, b, c, d]" using m(3) rs(2) len N by simp
  have csh: "shape (cleanup L) = [a, b, c, d]" by (simp add: cleanup_shape sh)
  obtain i j k l where idx: "unravel_index ri [a, b, c, d] = [i, j, k, l]"
    by simp
  have rng: "list_all2 (<) [i, j, k, l] [a, b, c, d]"
    and rav: "ravel_index [a, b, c, d] [i, j, k, l] = ri"
    using ravel_unravel [OF ri] unfolding idx by blast+
  then have r4: "i < a" "j < b" "k < c" "l < d" by simp_all
  have un: "np_unravel_index ri (shape (cleanup L)) = Inr [i, j, k, l]"
    using ri idx by (simp add: np_unravel_index_def csh del: unravel_index.simps prod_list.Cons)
  obtain s1 where s1: "slice_last2 (cleanup L) k l = Inr s1"
    using slice_last2_get [OF csh r4] by blast
  obtain s2 where s2: "slice_first2 (cleanup L) i j = Inr s2"
    using slice_first2_get [OF csh r4] by blast
  let ?r = "\<lparr>an_L' = cleanup L, an_maxval = Fin rv, an_maxidx = ri, an_ijkl = (i, j, k, l),
      an_phitheta = nd_squeeze (nd_map fl_abs s1), an_vpvs = nd_squeeze (nd_map fl_abs s2)\<rparr>"
  have run: "postprocess L = Inr ?r"
    using m(1,2) un s1 s2 by (simp add: postprocess_def Let_def rs(1) bind_err_def)
  have lenA: "length (elems (cleanup L)) = length rs"
    using rs(1) by (metis length_map)
  have nth: "fl_abs (elems (cleanup L) ! p) = Fin (rs ! p)" if "p < length rs" for p
  proof -
    have "?A ! p = Fin (rs ! p)" using that by (simp add: rs(1))
    then show ?thesis using that lenA by simp
  qed
  have mv: "Fin rv = fl_abs (elems (cleanup L) ! ri)" using nth [OF m(3)] m(4) by simp
  have all: "\<forall>p<a * b * c * d. fl_le (fl_abs (elems (cleanup L) ! p)) (Fin rv)"
    using nth m(5) rs(2) len by simp
  show ?thesis
    using run m(1,2) ri mv all r4 rav
    by (intro exI [of _ ?r] exI [of _ i] exI [of _ j] exI [of _ k] exI [of _ l])
       (simp add: rs(1) N del: prod_list.Cons)
qed


lemma tuple_return_refused:
  assumes "shape L \<noteq> []"
  shows "driver_post (PyTuple [PyArray L, PyNum idx, PyNum val]) = Inl ValueError"
  using assms by (auto simp: driver_post_def bind_err_def stack_def)

text \<open>
  Claim C2, as the drivers have it. The drivers bind the whole value of
  \<^verbatim>\<open>music6C(...)\<close> to \<open>L\<close> and use it as the four-dimensional likelihood
  tensor. For every such non-empty tensor the post-processing cell runs, and the flattened
  argmax index, the maximal value and the four grid indices are computed there, by the
  caller, from the cleaned tensor: \<open>maxidx\<close> and \<open>maxval\<close> are
  \<^verbatim>\<open>np.argmax\<close> and \<^verbatim>\<open>np.max\<close> of the absolute cleaned values, the
  value at \<open>maxidx\<close> bounds all others, and \<open>(i, j, k, l)\<close> is the multi-index of
  \<open>maxidx\<close>. A return value that pairs the tensor with an argmax index and a value is
  refused by the same cell with \<open>ValueError\<close>.
\<close>

theorem driver_computes_argmax:
  assumes "shape L = [a, b, c, d]" and "length (elems L) = a * b * c * d"
    and "0 < a * b * c * d"
  shows "(\<exists>r i j k l. driver_post (PyArray L) = Inr r
       \<and> an_L' r = cleanup L
       \<and> np_argmax (map fl_abs (elems (cleanup L))) = Inr (an_maxidx r)
       \<and> np_max (map fl_abs (elems (cleanup L))) = Inr (an_maxval r)
       \<and> an_maxidx r < a * b * c * d
       \<and> an_maxval r = fl_abs (elems (cleanup L) ! an_maxidx r)
       \<and> (\<forall>p<a * b * c * d. fl_le (fl_abs (elems (cleanup L) ! p)) (an_maxval r))
       \<and> an_ijkl r = (i, j, k, l) \<and> i < a \<and> j < b \<and> k < c \<and> l < d
       \<and> ravel_index [a, b, c, d] [i, j, k, l] = an_maxidx r)
    \<and> driver_post (PyTuple [PyArray L, PyNum idx, PyNum val]) = Inl ValueError"
proof -
  have "shape L \<noteq> []" using assms(1) by simp
  then have "driver_post (PyTuple [PyArray L, PyNum idx, PyNum val]) = Inl ValueError"
    by (rule tuple_return_refused)
  moreover have "driver_post (PyArray L) = postprocess L"
    by (simp add: driver_post_def bind_err_def)
  ultimately show ?thesis
    using postprocess_ok [OF assms] by simp
qed

theorem driver_computes_argmax_witness:
  "driver_post (PyArray \<lparr>shape = [1, 2, 1, 1], elems = [Fin (- 5), NaN]\<rparr>)
     = Inr \<lparr>an_L' = \<lparr>shape = [1, 2, 1, 1], elems = [Fin (- 5), Fin 1]\<rparr>,
            an_maxval = Fin 5, an_maxidx = 0, an_ijkl = (0, 0, 0, 0),
            an_phitheta = \<lparr>shape = [2], elems = [Fin 5, Fin 1]\<rparr>,
            an_vpvs = \<lparr>shape = [], elems = [Fin 5]\<rparr>\<rparr>
   \<and> driver_post (PyTuple [PyArray \<lparr>shape = [1, 2, 1, 1], elems = [Fin (- 5), NaN]\<rparr>,
        PyNum (Fin 0), PyNum (Fin 5)]) = Inl ValueError"
proof -
  let ?L = "\<lparr>shape = [1, 2, 1, 1], elems = [Fin (- 5), NaN]\<rparr>"
  have "shape ?L = [1, 2, 1, 1]" "length (elems ?L) = 1 * 2 * 1 * 1" "(0::nat) < 1 * 2 * 1 * 1"
    by simp_all
  from driver_computes_argmax [OF this, of "Fin 0" "Fin 5"]
  have "driver_post (PyTuple [PyArray ?L, PyNum (Fin 0), PyNum (Fin 5)]) = Inl ValueError"
    by blast
  moreover have "driver_post (PyArray ?L)
     = Inr \<lparr>an_L' = \<lparr>shape = [1, 2, 1, 1], elems = [Fin (- 5), Fin 1]\<rparr>,
            an_maxval = Fin 5, an_maxidx = 0, an_ijkl = (0, 0, 0, 0),
            an_phitheta = \<lparr>shape = [2], elems = [Fin 5, Fin 1]\<rparr>,
            an_vpvs = \<lparr>shape = [], elems = [Fin 5]\<rparr>\<rparr>"
    by (simp add: driver_post_def bind_err_def postprocess_def cleanup_def nan_to_num_def
        nd_map_def zero_to_one1_def np_max_def np_argmax_def np_unravel_index_def
        slice_last2_def slice_first2_def nd_get_def nd_squeeze_def Let_def upt_rec)
  ultimately show ?thesis by simp
qed

text \<open>
  Claim C2 as stated fails on the drivers: were the value of \<^verbatim>\<open>music6C(...)\<close> the
  likelihood tensor together with the flattened argmax index and the maximal value, here
  the tensor \<open>[[[[3, 7]]]]\<close> with index 1 and value 7, the post-processing cell of the
  drivers would raise \<open>ValueError\<close> instead of producing its planes.
\<close>

theorem tuple_return_counterexample:
  "driver_post (PyTuple [PyArray \<lparr>shape = [1, 1, 1, 2], elems = [Fin 3, Fin 7]\<rparr>,
       PyNum (Fin 1), PyNum (Fin 7)]) = Inl ValueError"
  by (simp add: driver_post_def bind_err_def stack_def)

subsection \<open>The scaling velocity\<close>

text \<open>
  Claim C6. In both drivers the scaling velocity handed to \<^verbatim>\<open>music6C\<close> is the
  value \<open>v_scal\<close> that every call of \<^verbatim>\<open>polvect6C\<close> received when the data
  were prepared: twice the S-wave velocity (340) in the isolated-P driver, 1.2 times the
  S-wave velocity (204) in the interfering-P driver.
\<close>

theorem scaling_velocity_shared:
  "map pv_v_scal (fst driver_01_calls) = [mu_v_scal (snd driver_01_calls)]
   \<and> mu_v_scal (snd driver_01_calls) = 2 * wp_vs (pv_param (hd (fst driver_01_calls)))
   \<and> mu_v_scal (snd driver_01_calls) = 340
   \<and> map pv_v_scal (fst driver_02_calls)
       = [mu_v_scal (snd driver_02_calls), mu_v_scal (snd driver_02_calls)]
   \<and> mu_v_scal (snd driver_02_calls) = 1.2 * wp_vs (pv_param (hd (fst driver_02_calls)))
   \<and> mu_v_scal (snd driver_02_calls) = 204"
  by (simp add: driver_01_calls_def driver_02_calls_def)

end
